theory Spec2Isabelle
  imports Main
begin

section \<open>Data model\<close>

text \<open>
  The entities of \<^verbatim>\<open>artist-event.entity.ts\<close> and the tables of the migration
  \<^verbatim>\<open>CreateArtistEventsTables\<close>. An instant is the millisecond count of a JavaScript
  \<^verbatim>\<open>Date\<close> (\<^verbatim>\<open>getTime()\<close>); identifiers are UUID strings. The columns
  \<^verbatim>\<open>created_at\<close> and \<^verbatim>\<open>updated_at\<close> of \<^verbatim>\<open>artist_events\<close> are maintained by the
  ORM alone, no service function reads them, and they are left out of the event record.
  \<^verbatim>\<open>rsvp_count\<close> is an SQL INTEGER; it is modelled as an unbounded integer. The field
  \<^verbatim>\<open>id\<close> is \<open>ev_id\<close> on an event and \<open>rsvp_id\<close> on an RSVP row, and the fields of the
  request bodies carry a prefix, since \<open>id\<close> is a constant of HOL and the fields of all
  records share one name space.
\<close>

type_synonym instant = int
type_synonym uuid = string

datatype EventType = LIVE_STREAM | CONCERT | MEET_GREET | ALBUM_RELEASE

record ArtistEvent =
  ev_id :: uuid
  artistId :: uuid
  title :: string
  description :: string
  eventType :: EventType
  startTime :: instant
  endTime :: "instant option"
  venue :: "string option"
  streamUrl :: "string option"
  ticketUrl :: "string option"
  isVirtual :: bool
  rsvpCount :: int

record EventRSVP =
  rsvp_id :: uuid
  eventId :: uuid
  userId :: uuid
  reminderEnabled :: bool
  reminderSent :: bool
  createdAt :: instant

text \<open>The request bodies of \<^verbatim>\<open>events.dto.ts\<close>. A date string that passed
  \<^verbatim>\<open>@IsDateString\<close> is represented by the instant \<^verbatim>\<open>new Date(...)\<close> parses it to; an
  optional field that is absent is \<open>None\<close>.\<close>

record CreateEventDto =
  c_title :: string
  c_description :: string
  c_eventType :: EventType
  c_startTime :: instant
  c_endTime :: "instant option"
  c_venue :: "string option"
  c_streamUrl :: "string option"
  c_ticketUrl :: "string option"
  c_isVirtual :: "bool option"

record UpdateEventDto =
  u_title :: "string option"
  u_description :: "string option"
  u_eventType :: "EventType option"
  u_startTime :: "instant option"
  u_endTime :: "instant option"
  u_venue :: "string option"
  u_streamUrl :: "string option"
  u_ticketUrl :: "string option"
  u_isVirtual :: "bool option"

record RsvpDto =
  dto_reminderEnabled :: "bool option"

record PaginationDto =
  dto_page :: "int option"
  dto_limit :: "int option"

text \<open>The exceptions the service throws, with their messages. \<open>StoreError\<close> stands for
  a rejection by the storage layer (a violated constraint, a conflict, a timeout),
  \<open>DispatchError\<close> for a rejection by the notification channel.\<close>

datatype error =
    NotFoundException string
  | ForbiddenException string
  | BadRequestException string
  | ConflictException string
  | StoreError
  | DispatchError

text \<open>The two tables.\<close>

record db =
  artist_events :: "ArtistEvent list"
  event_rsvps :: "EventRSVP list"

text \<open>What a call receives from its surroundings: the value of \<^verbatim>\<open>new Date()\<close>, the
  identifier \<^verbatim>\<open>uuid_generate_v4()\<close> gives a row inserted by the call, and whether the
  store rejects a write of the call.\<close>

record env =
  now :: instant
  new_uuid :: uuid
  save_fails :: bool
  update_fails :: bool
  remove_fails :: bool

section \<open>Storage primitives\<close>

text \<open>\<^verbatim>\<open>INSERT INTO event_rsvps\<close>: rejected on a primary-key collision, on the
  uniqueness constraint \<^verbatim>\<open>uq_event_rsvps_event_user\<close>, and on the foreign key
  \<^verbatim>\<open>fk_event_rsvps_event\<close>.\<close>

definition insert_rsvp :: "env \<Rightarrow> EventRSVP \<Rightarrow> db \<Rightarrow> error + db" where
  "insert_rsvp env r s =
     (if save_fails env
         \<or> list_ex (\<lambda>x. rsvp_id x = rsvp_id r) (event_rsvps s)
         \<or> list_ex (\<lambda>x. eventId x = eventId r \<and> userId x = userId r) (event_rsvps s)
         \<or> \<not> list_ex (\<lambda>e. ev_id e = eventId r) (artist_events s)
      then Inl StoreError
      else Inr (s\<lparr>event_rsvps := event_rsvps s @ [r]\<rparr>))"

text \<open>\<^verbatim>\<open>manager.remove(rsvp)\<close>: \<^verbatim>\<open>DELETE FROM event_rsvps WHERE id = rsvp.id\<close>.\<close>

definition remove_rsvp :: "env \<Rightarrow> EventRSVP \<Rightarrow> db \<Rightarrow> error + db" where
  "remove_rsvp env r s =
     (if remove_fails env then Inl StoreError
      else Inr (s\<lparr>event_rsvps := filter (\<lambda>x. rsvp_id x \<noteq> rsvp_id r) (event_rsvps s)\<rparr>))"

text \<open>\<^verbatim>\<open>UPDATE artist_events SET rsvp_count = rsvp_count + 1 WHERE id = :id\<close>.\<close>

definition increment_rsvpCount :: "env \<Rightarrow> uuid \<Rightarrow> db \<Rightarrow> error + db" where
  "increment_rsvpCount env eid s =
     (if update_fails env then Inl StoreError
      else Inr (s\<lparr>artist_events :=
             map (\<lambda>e. if ev_id e = eid then e\<lparr>rsvpCount := rsvpCount e + 1\<rparr> else e)
               (artist_events s)\<rparr>))"

text \<open>\<^verbatim>\<open>UPDATE artist_events SET rsvp_count = GREATEST(rsvp_count - 1, 0) WHERE id = :id\<close>.\<close>

definition decrement_rsvpCount :: "env \<Rightarrow> uuid \<Rightarrow> db \<Rightarrow> error + db" where
  "decrement_rsvpCount env eid s =
     (if update_fails env then Inl StoreError
      else Inr (s\<lparr>artist_events :=
             map (\<lambda>e. if ev_id e = eid then e\<lparr>rsvpCount := max (rsvpCount e - 1) 0\<rparr> else e)
               (artist_events s)\<rparr>))"

text \<open>\<^verbatim>\<open>dataSource.transaction(cb)\<close>: the callback's writes are committed when it
  returns and rolled back when it throws; the exception reaches the caller.\<close>

definition transaction :: "(db \<Rightarrow> error + 'a \<times> db) \<Rightarrow> db \<Rightarrow> (error + 'a) \<times> db" where
  "transaction cb s = (case cb s of Inl e \<Rightarrow> (Inl e, s) | Inr (v, s') \<Rightarrow> (Inr v, s'))"

section \<open>The attendance ledger: \<^verbatim>\<open>EventsService\<close>\<close>

definition getEvent :: "uuid \<Rightarrow> db \<Rightarrow> error + ArtistEvent" where
  "getEvent eid s =
     (case find (\<lambda>e. ev_id e = eid) (artist_events s) of
        None \<Rightarrow> Inl (NotFoundException ''Event not found'')
      | Some event \<Rightarrow> Inr event)"

text \<open>The callback \<^verbatim>\<open>rsvp\<close> hands to the transaction: create the row
  (\<^verbatim>\<open>reminderEnabled: dto.reminderEnabled ?? true\<close>; \<^verbatim>\<open>reminder_sent\<close> and
  \<^verbatim>\<open>created_at\<close> take their column defaults), save it, bump the counter.\<close>

definition rsvp_cb :: "env \<Rightarrow> uuid \<Rightarrow> uuid \<Rightarrow> RsvpDto \<Rightarrow> db \<Rightarrow> error + EventRSVP \<times> db" where
  "rsvp_cb env eid uid dto s =
     (let row = \<lparr>rsvp_id = new_uuid env, eventId = eid, userId = uid,
                  reminderEnabled = (case dto_reminderEnabled dto of None \<Rightarrow> True | Some b \<Rightarrow> b),
                  reminderSent = False, createdAt = now env\<rparr>
      in (case insert_rsvp env row s of
            Inl e \<Rightarrow> Inl e
          | Inr s1 \<Rightarrow>
              (case increment_rsvpCount env eid s1 of
                 Inl e \<Rightarrow> Inl e
               | Inr s2 \<Rightarrow> Inr (row, s2))))"

definition rsvp :: "env \<Rightarrow> uuid \<Rightarrow> uuid \<Rightarrow> RsvpDto \<Rightarrow> db \<Rightarrow> (error + EventRSVP) \<times> db" where
  "rsvp env eid uid dto s =
     (case getEvent eid s of
        Inl e \<Rightarrow> (Inl e, s)
      | Inr event \<Rightarrow>
          if startTime event \<le> now env
          then (Inl (BadRequestException ''Cannot RSVP to a past event''), s)
          else (case find (\<lambda>r. eventId r = eid \<and> userId r = uid) (event_rsvps s) of
                  Some existing \<Rightarrow> (Inl (ConflictException ''Already RSVPed to this event''), s)
                | None \<Rightarrow> transaction (rsvp_cb env eid uid dto) s))"

definition unRsvp_cb :: "env \<Rightarrow> uuid \<Rightarrow> EventRSVP \<Rightarrow> db \<Rightarrow> error + unit \<times> db" where
  "unRsvp_cb env eid row s =
     (case remove_rsvp env row s of
        Inl e \<Rightarrow> Inl e
      | Inr s1 \<Rightarrow>
          (case decrement_rsvpCount env eid s1 of
             Inl e \<Rightarrow> Inl e
           | Inr s2 \<Rightarrow> Inr ((), s2)))"

definition unRsvp :: "env \<Rightarrow> uuid \<Rightarrow> uuid \<Rightarrow> db \<Rightarrow> (error + unit) \<times> db" where
  "unRsvp env eid uid s =
     (case find (\<lambda>r. eventId r = eid \<and> userId r = uid) (event_rsvps s) of
        None \<Rightarrow> (Inl (NotFoundException ''RSVP not found''), s)
      | Some row \<Rightarrow> transaction (unRsvp_cb env eid row) s)"

subsection \<open>Event CRUD\<close>

text \<open>\<^verbatim>\<open>eventRepo.save\<close> of a new event (an INSERT; rejected on a primary-key collision)
  and of a loaded one (an UPDATE of the row with its id).\<close>

definition insert_event :: "env \<Rightarrow> ArtistEvent \<Rightarrow> db \<Rightarrow> error + db" where
  "insert_event env ev s =
     (if save_fails env \<or> list_ex (\<lambda>x. ev_id x = ev_id ev) (artist_events s)
      then Inl StoreError
      else Inr (s\<lparr>artist_events := artist_events s @ [ev]\<rparr>))"

definition save_event :: "env \<Rightarrow> ArtistEvent \<Rightarrow> db \<Rightarrow> error + db" where
  "save_event env ev s =
     (if save_fails env then Inl StoreError
      else Inr (s\<lparr>artist_events :=
             map (\<lambda>x. if ev_id x = ev_id ev then ev else x) (artist_events s)\<rparr>))"

text \<open>\<^verbatim>\<open>endTime && endTime <= startTime\<close>: a \<^verbatim>\<open>Date\<close> object is truthy, \<^verbatim>\<open>null\<close> is
  not.\<close>

definition ends_before :: "instant option \<Rightarrow> instant \<Rightarrow> bool" where
  "ends_before en st = (case en of None \<Rightarrow> False | Some t \<Rightarrow> t \<le> st)"

definition createEvent :: "env \<Rightarrow> uuid \<Rightarrow> CreateEventDto \<Rightarrow> db \<Rightarrow> (error + ArtistEvent) \<times> db" where
  "createEvent env aid dto s =
     (let st = c_startTime dto in
      if st \<le> now env
      then (Inl (BadRequestException ''Event start time must be in the future''), s)
      else
        (let en = c_endTime dto in
         if ends_before en st
         then (Inl (BadRequestException ''End time must be after start time''), s)
         else
           (let event = \<lparr>ev_id = new_uuid env, artistId = aid, title = c_title dto,
                         description = c_description dto, eventType = c_eventType dto,
                         startTime = st, endTime = en, venue = c_venue dto,
                         streamUrl = c_streamUrl dto, ticketUrl = c_ticketUrl dto,
                         isVirtual = (case c_isVirtual dto of None \<Rightarrow> False | Some b \<Rightarrow> b),
                         rsvpCount = 0\<rparr>
            in (case insert_event env event s of
                  Inl e \<Rightarrow> (Inl e, s)
                | Inr s' \<Rightarrow> (Inr event, s')))))"

text \<open>\<^verbatim>\<open>Object.assign(event, { ...dto, startTime, endTime })\<close>: a field the body
  carries replaces the stored one.\<close>

definition assign :: "ArtistEvent \<Rightarrow> UpdateEventDto \<Rightarrow> instant \<Rightarrow> instant option \<Rightarrow> ArtistEvent" where
  "assign event dto st en =
     event\<lparr>title := (case u_title dto of None \<Rightarrow> title event | Some x \<Rightarrow> x),
           description := (case u_description dto of None \<Rightarrow> description event | Some x \<Rightarrow> x),
           eventType := (case u_eventType dto of None \<Rightarrow> eventType event | Some x \<Rightarrow> x),
           venue := (case u_venue dto of None \<Rightarrow> venue event | Some x \<Rightarrow> Some x),
           streamUrl := (case u_streamUrl dto of None \<Rightarrow> streamUrl event | Some x \<Rightarrow> Some x),
           ticketUrl := (case u_ticketUrl dto of None \<Rightarrow> ticketUrl event | Some x \<Rightarrow> Some x),
           isVirtual := (case u_isVirtual dto of None \<Rightarrow> isVirtual event | Some x \<Rightarrow> x),
           startTime := st, endTime := en\<rparr>"

definition updateEvent :: "env \<Rightarrow> uuid \<Rightarrow> uuid \<Rightarrow> UpdateEventDto \<Rightarrow> db \<Rightarrow> (error + ArtistEvent) \<times> db" where
  "updateEvent env eid aid dto s =
     (case getEvent eid s of
        Inl e \<Rightarrow> (Inl e, s)
      | Inr event \<Rightarrow>
          if artistId event \<noteq> aid
          then (Inl (ForbiddenException ''You can only update your own events''), s)
          else
            (let st = (case u_startTime dto of Some t \<Rightarrow> t | None \<Rightarrow> startTime event);
                 en = (case u_endTime dto of Some t \<Rightarrow> Some t | None \<Rightarrow> endTime event)
             in if ends_before en st
                then (Inl (BadRequestException ''End time must be after start time''), s)
                else
                  (let event' = assign event dto st en
                   in (case save_event env event' s of
                         Inl e \<Rightarrow> (Inl e, s)
                       | Inr s' \<Rightarrow> (Inr event', s')))))"

subsection \<open>Feed\<close>

text \<open>\<^verbatim>\<open>PaginatedResult\<close>: \<^verbatim>\<open>totalPages = Math.ceil(total / limit)\<close>, which is no
  finite number when \<^verbatim>\<open>limit\<close> is 0. The quotient is a double; for the row counts of a
  table, far below \<open>2^53\<close>, its ceiling is the ceiling of the exact quotient, which the
  model computes on the integers.\<close>

record 'a PaginatedResult =
  data :: "'a list"
  total :: int
  page :: int
  limit :: int
  totalPages :: "int option"

definition new_PaginatedResult :: "'a list \<Rightarrow> int \<Rightarrow> int \<Rightarrow> int \<Rightarrow> 'a PaginatedResult" where
  "new_PaginatedResult d t p l =
     \<lparr>data = d, total = t, page = p, limit = l,
      totalPages = (if l = 0 then None else Some (- ((- t) div l)))\<rparr>"

text \<open>A query sent to the event repository: \<^verbatim>\<open>findAndCount\<close> with the artist set of
  \<^verbatim>\<open>In(...)\<close>, the bound of \<^verbatim>\<open>MoreThan(...)\<close>, \<^verbatim>\<open>skip\<close> and \<^verbatim>\<open>take\<close>.\<close>

datatype store_call = FindAndCount "uuid list" instant int int

text \<open>What the store answers: the page of the matching events in ascending start order
  and the number of matching events. \<^verbatim>\<open>PaginationDto\<close> admits only \<^verbatim>\<open>page\<close> and
  \<^verbatim>\<open>limit\<close> from 1 on, so \<^verbatim>\<open>skip\<close> and \<^verbatim>\<open>take\<close> are naturals there.\<close>

definition findAndCount :: "store_call \<Rightarrow> db \<Rightarrow> ArtistEvent list \<times> int" where
  "findAndCount q s =
     (case q of FindAndCount ids t sk tk \<Rightarrow>
        let rows = sort_key startTime
                     (filter (\<lambda>e. artistId e \<in> set ids \<and> t < startTime e) (artist_events s))
        in (take (nat tk) (drop (nat sk) rows), int (length rows)))"

text \<open>\<^verbatim>\<open>getFeed\<close> returns its result together with the queries it sent to the store.\<close>

definition getFeed :: "instant \<Rightarrow> uuid list \<Rightarrow> PaginationDto \<Rightarrow> db
    \<Rightarrow> ArtistEvent PaginatedResult \<times> store_call list" where
  "getFeed t followedArtistIds pagination s =
     (let p = (case dto_page pagination of None \<Rightarrow> 1 | Some x \<Rightarrow> x);
          l = (case dto_limit pagination of None \<Rightarrow> 20 | Some x \<Rightarrow> x)
      in if length followedArtistIds = 0
         then (new_PaginatedResult [] 0 p l, [])
         else
           (let q = FindAndCount followedArtistIds t ((p - 1) * l) l;
                (d, n) = findAndCount q s
            in (new_PaginatedResult d n p l, [q])))"

subsection \<open>Reminder cron support\<close>

definition getEventsStartingSoon :: "instant \<Rightarrow> db \<Rightarrow> ArtistEvent list" where
  "getEventsStartingSoon t s =
     (let oneHourFromNow = t + 60 * 60 * 1000;
          buffer = t + 55 * 60 * 1000
      in filter (\<lambda>event. startTime event > buffer \<and> startTime event \<le> oneHourFromNow)
           (artist_events s))"

definition getRsvpsForReminder :: "uuid \<Rightarrow> db \<Rightarrow> EventRSVP list" where
  "getRsvpsForReminder eid s =
     filter (\<lambda>r. eventId r = eid \<and> reminderEnabled r = True \<and> reminderSent r = False)
       (event_rsvps s)"

definition markReminderSent :: "uuid list \<Rightarrow> db \<Rightarrow> db" where
  "markReminderSent rsvpIds s =
     (if length rsvpIds = 0 then s
      else s\<lparr>event_rsvps :=
             map (\<lambda>r. if rsvp_id r \<in> set rsvpIds then r\<lparr>reminderSent := True\<rparr> else r)
               (event_rsvps s)\<rparr>)"

section \<open>The reminder sweeper: \<^verbatim>\<open>EventsScheduler\<close>\<close>

text \<open>The collaborators of one sweep: whether the RSVP fetch for an event is rejected,
  whether the notification channel rejects a dispatch, and whether the batched
  mark-as-sent update is rejected. The dispatch is the call
  \<^verbatim>\<open>notificationsService.sendEventReminders(userIds, event)\<close>; the class
  \<^verbatim>\<open>NotificationsService\<close> of the repository declares no method of this name, so the
  capability is a parameter here, and every behaviour of it, also failing always, is
  covered.\<close>

record sweep_env =
  fetch_fails :: "uuid \<Rightarrow> bool"
  dispatch_fails :: "uuid list \<Rightarrow> ArtistEvent \<Rightarrow> bool"
  mark_fails :: "uuid list \<Rightarrow> bool"

text \<open>The state of a running sweep: the store, the dispatch calls made so far, the
  events whose failure was caught and logged, and the local counter.\<close>

record sweep =
  store :: db
  dispatched :: "(uuid list \<times> ArtistEvent) list"
  failed :: "uuid list"
  totalSent :: int

text \<open>The body of the \<^verbatim>\<open>try\<close> block for one event; \<open>Some e\<close> is a thrown exception,
  \<open>None\<close> a normal end (also the \<^verbatim>\<open>continue\<close>).\<close>

definition try_event :: "sweep_env \<Rightarrow> ArtistEvent \<Rightarrow> sweep \<Rightarrow> error option \<times> sweep" where
  "try_event senv event w =
     (if fetch_fails senv (ev_id event) then (Some StoreError, w)
      else
        (let rsvps = getRsvpsForReminder (ev_id event) (store w)
         in if length rsvps = 0 then (None, w)
            else
              (let userIds = map userId rsvps;
                   rsvpIds = map rsvp_id rsvps;
                   w1 = w\<lparr>dispatched := dispatched w @ [(userIds, event)]\<rparr>
               in if dispatch_fails senv userIds event then (Some DispatchError, w1)
                  else if mark_fails senv rsvpIds then (Some StoreError, w1)
                  else (None, w1\<lparr>store := markReminderSent rsvpIds (store w1),
                                 totalSent := totalSent w1 + int (length userIds)\<rparr>))))"

text \<open>One turn of the loop: the \<^verbatim>\<open>catch\<close> logs the failure and the loop goes on.\<close>

definition for_event :: "sweep_env \<Rightarrow> ArtistEvent \<Rightarrow> sweep \<Rightarrow> sweep" where
  "for_event senv event w =
     (case try_event senv event w of
        (None, w') \<Rightarrow> w'
      | (Some err, w') \<Rightarrow> w'\<lparr>failed := failed w' @ [ev_id event]\<rparr>)"

definition sendEventReminders :: "sweep_env \<Rightarrow> instant \<Rightarrow> db \<Rightarrow> sweep" where
  "sendEventReminders senv t s =
     (let upcomingEvents = getEventsStartingSoon t s;
          w0 = \<lparr>store = s, dispatched = [], failed = [], totalSent = 0\<rparr>
      in if length upcomingEvents = 0 then w0
         else fold (for_event senv) upcomingEvents w0)"

text \<open>\<^verbatim>\<open>@Cron(CronExpression.EVERY_5_MINUTES)\<close>: the time between two sweeps.\<close>

definition sweep_period :: int where
  "sweep_period = 5 * 60 * 1000"

section \<open>Notions the properties are stated with\<close>

text \<open>The constraints the migration puts on the two tables: the primary keys, the
  uniqueness of \<^verbatim>\<open>(event_id, user_id)\<close>, and the foreign key of an RSVP row.\<close>

definition constraints :: "db \<Rightarrow> bool" where
  "constraints s \<longleftrightarrow>
     distinct (map ev_id (artist_events s))
     \<and> distinct (map rsvp_id (event_rsvps s))
     \<and> distinct (map (\<lambda>r. (eventId r, userId r)) (event_rsvps s))
     \<and> list_all (\<lambda>r. list_ex (\<lambda>e. ev_id e = eventId r) (artist_events s)) (event_rsvps s)"

text \<open>Whether the store accepts the insertion of an RSVP row.\<close>

definition insertable :: "env \<Rightarrow> EventRSVP \<Rightarrow> db \<Rightarrow> bool" where
  "insertable env r s \<longleftrightarrow>
     \<not> save_fails env
     \<and> \<not> list_ex (\<lambda>x. rsvp_id x = rsvp_id r) (event_rsvps s)
     \<and> \<not> list_ex (\<lambda>x. eventId x = eventId r \<and> userId x = userId r) (event_rsvps s)
     \<and> list_ex (\<lambda>e. ev_id e = eventId r) (artist_events s)"

text \<open>The row a call of \<^verbatim>\<open>rsvp\<close> creates.\<close>

definition new_row :: "env \<Rightarrow> uuid \<Rightarrow> uuid \<Rightarrow> RsvpDto \<Rightarrow> EventRSVP" where
  "new_row env eid uid dto =
     \<lparr>rsvp_id = new_uuid env, eventId = eid, userId = uid,
      reminderEnabled = (case dto_reminderEnabled dto of None \<Rightarrow> True | Some b \<Rightarrow> b),
      reminderSent = False, createdAt = now env\<rparr>"

text \<open>The RSVP rows that reference an event, and whether the counter of every event
  with that identifier equals their number.\<close>

definition attendees :: "uuid \<Rightarrow> db \<Rightarrow> EventRSVP list" where
  "attendees eid s = filter (\<lambda>r. eventId r = eid) (event_rsvps s)"

definition counter_exact :: "uuid \<Rightarrow> db \<Rightarrow> bool" where
  "counter_exact eid s \<longleftrightarrow>
     list_all (\<lambda>e. ev_id e \<noteq> eid \<or> rsvpCount e = int (length (attendees eid s)))
       (artist_events s)"

definition counter_nonneg :: "uuid \<Rightarrow> db \<Rightarrow> bool" where
  "counter_nonneg eid s \<longleftrightarrow>
     list_all (\<lambda>e. ev_id e \<noteq> eid \<or> 0 \<le> rsvpCount e) (artist_events s)"

text \<open>A sequence of ledger calls, each with its own surroundings; a call starts from
  the store the call before it returned, also when that call failed.\<close>

datatype ledger_call =
    Rsvp env uuid uuid RsvpDto
  | UnRsvp env uuid uuid

fun apply_call :: "ledger_call \<Rightarrow> db \<Rightarrow> db" where
  "apply_call (Rsvp env eid uid dto) s = snd (rsvp env eid uid dto s)"
| "apply_call (UnRsvp env eid uid) s = snd (unRsvp env eid uid s)"

definition run_calls :: "ledger_call list \<Rightarrow> db \<Rightarrow> db" where
  "run_calls calls s = fold apply_call calls s"

text \<open>For the sweep: an RSVP row is pending when its reminder is enabled and not yet
  sent. In a store, the sweep reaches the dispatch for an event when the fetch of its rows
  succeeds and returns some; the reminders of the event are delivered when, moreover, the
  dispatch with the users of these rows and the update of these rows both succeed.\<close>

definition pending :: "EventRSVP \<Rightarrow> bool" where
  "pending r \<longleftrightarrow> reminderEnabled r \<and> \<not> reminderSent r"

definition reached :: "sweep_env \<Rightarrow> db \<Rightarrow> ArtistEvent \<Rightarrow> bool" where
  "reached senv s ev \<longleftrightarrow>
     \<not> fetch_fails senv (ev_id ev) \<and> getRsvpsForReminder (ev_id ev) s \<noteq> []"

definition delivered :: "sweep_env \<Rightarrow> db \<Rightarrow> ArtistEvent \<Rightarrow> bool" where
  "delivered senv s ev \<longleftrightarrow>
     reached senv s ev
     \<and> \<not> dispatch_fails senv (map userId (getRsvpsForReminder (ev_id ev) s)) ev
     \<and> \<not> mark_fails senv (map rsvp_id (getRsvpsForReminder (ev_id ev) s))"

text \<open>The dispatch call the sweep makes for an event, if it makes one.\<close>

definition call_for :: "sweep_env \<Rightarrow> db \<Rightarrow> ArtistEvent \<Rightarrow> (uuid list \<times> ArtistEvent) list" where
  "call_for senv s ev =
     (if reached senv s ev then [(map userId (getRsvpsForReminder (ev_id ev) s), ev)] else [])"

text \<open>A row after the sweep has delivered the reminders of the events \<open>evs\<close>.\<close>

definition mark_for :: "sweep_env \<Rightarrow> db \<Rightarrow> ArtistEvent list \<Rightarrow> EventRSVP \<Rightarrow> EventRSVP" where
  "mark_for senv s evs r =
     (if pending r \<and> list_ex (\<lambda>ev. ev_id ev = eventId r \<and> delivered senv s ev) evs
      then r\<lparr>reminderSent := True\<rparr> else r)"

section \<open>Sample data\<close>

text \<open>The fixtures of the test suites (\<^verbatim>\<open>buildEvent\<close>, \<^verbatim>\<open>buildRsvp\<close>), with the clock
  at 0: an event starting in 58 minutes with two RSVPs that want a reminder and one that
  does not.\<close>

definition sample_event :: ArtistEvent where
  "sample_event =
     \<lparr>ev_id = ''e1'', artistId = ''a1'', title = ''Upcoming Show'', description = ''desc'',
      eventType = LIVE_STREAM, startTime = 58 * 60 * 1000, endTime = None, venue = None,
      streamUrl = Some ''https://stream.example.com'', ticketUrl = None, isVirtual = True,
      rsvpCount = 3\<rparr>"

definition sample_rsvp :: "uuid \<Rightarrow> uuid \<Rightarrow> bool \<Rightarrow> EventRSVP" where
  "sample_rsvp rid uid enabled =
     \<lparr>rsvp_id = rid, eventId = ''e1'', userId = uid, reminderEnabled = enabled,
      reminderSent = False, createdAt = 0\<rparr>"

definition sample_db :: db where
  "sample_db =
     \<lparr>artist_events = [sample_event],
      event_rsvps = [sample_rsvp ''r1'' ''u1'' True, sample_rsvp ''r2'' ''u2'' True,
                     sample_rsvp ''r3'' ''u3'' False]\<rparr>"

definition sample_env :: "instant \<Rightarrow> env" where
  "sample_env t =
     \<lparr>now = t, new_uuid = ''r4'', save_fails = False, update_fails = False,
      remove_fails = False\<rparr>"

definition no_dto :: RsvpDto where
  "no_dto = \<lparr>dto_reminderEnabled = None\<rparr>"

text \<open>The sample store with a counter that has drifted to zero.\<close>

definition drifted_db :: db where
  "drifted_db = sample_db\<lparr>artist_events := [sample_event\<lparr>rsvpCount := 0\<rparr>]\<rparr>"

text \<open>A run of ledger calls on the sample store: a new RSVP, a cancellation, the same
  cancellation again, an RSVP whose counter update the store rejects, and a second
  cancellation.\<close>

definition sample_calls :: "ledger_call list" where
  "sample_calls =
     [Rsvp (sample_env 0) ''e1'' ''u4'' no_dto,
      UnRsvp (sample_env 0) ''e1'' ''u1'',
      UnRsvp (sample_env 0) ''e1'' ''u1'',
      Rsvp ((sample_env 0)\<lparr>new_uuid := ''r5'', update_fails := True\<rparr>) ''e1'' ''u5'' no_dto,
      UnRsvp (sample_env 0) ''e1'' ''u3'']"

text \<open>Bodies of requests: no pagination argument, an update that moves the start of
  an event to the instant 5, and the creation of an event starting at the instant 5.\<close>

definition no_pagination :: PaginationDto where
  "no_pagination = \<lparr>dto_page = None, dto_limit = None\<rparr>"

definition move_start :: UpdateEventDto where
  "move_start =
     \<lparr>u_title = None, u_description = None, u_eventType = None, u_startTime = Some 5,
      u_endTime = None, u_venue = None, u_streamUrl = None, u_ticketUrl = None,
      u_isVirtual = None\<rparr>"

definition create_early :: CreateEventDto where
  "create_early =
     \<lparr>c_title = ''Early'', c_description = ''desc'', c_eventType = CONCERT, c_startTime = 5,
      c_endTime = None, c_venue = None, c_streamUrl = None, c_ticketUrl = None,
      c_isVirtual = None\<rparr>"

text \<open>Collaborators of a sweep: none fails; the fetch for the event \<^verbatim>\<open>e0\<close> fails. A
  store with a second event in the window, listed first, that has one pending RSVP.\<close>

definition all_ok :: sweep_env where
  "all_ok = \<lparr>fetch_fails = (\<lambda>eid. False), dispatch_fails = (\<lambda>uids ev. False),
             mark_fails = (\<lambda>ids. False)\<rparr>"

definition first_fails :: sweep_env where
  "first_fails = \<lparr>fetch_fails = (\<lambda>eid. eid = ''e0''), dispatch_fails = (\<lambda>uids ev. False),
                  mark_fails = (\<lambda>ids. False)\<rparr>"

definition first_event :: ArtistEvent where
  "first_event = sample_event\<lparr>ev_id := ''e0'', startTime := 57 * 60 * 1000, rsvpCount := 1\<rparr>"

definition first_rsvp :: EventRSVP where
  "first_rsvp = \<lparr>rsvp_id = ''r0'', eventId = ''e0'', userId = ''u0'', reminderEnabled = True,
                  reminderSent = False, createdAt = 0\<rparr>"

definition two_events_db :: db where
  "two_events_db =
     \<lparr>artist_events = [first_event, sample_event],
      event_rsvps = first_rsvp # event_rsvps sample_db\<rparr>"

text \<open>The sample store after the user \<^verbatim>\<open>u4\<close> has joined the sample event.\<close>

definition joined_db :: db where
  "joined_db =
     \<lparr>artist_events = [sample_event\<lparr>rsvpCount := 4\<rparr>],
      event_rsvps = event_rsvps sample_db @ [new_row (sample_env 0) ''e1'' ''u4'' no_dto]\<rparr>"

section \<open>Looking up an event\<close>

lemmas sample_defs = sample_event_def sample_rsvp_def sample_db_def sample_env_def

lemma find_SomeD: "find P xs = Some x \<Longrightarrow> x \<in> set xs \<and> P x"
  by (induction xs) (auto split: if_splits)

lemma getEvent_missing:
  "getEvent eid s = Inl (NotFoundException ''Event not found'')
     \<longleftrightarrow> \<not> (\<exists>e \<in> set (artist_events s). ev_id e = eid)"
  by (auto simp: getEvent_def find_None_iff split: option.splits dest: find_SomeD)

lemma getEvent_found:
  "getEvent eid s = Inr event \<Longrightarrow> event \<in> set (artist_events s) \<and> ev_id event = eid"
  by (auto simp: getEvent_def split: option.splits dest: find_SomeD)

lemma getEvent_cases:
  obtains "getEvent eid s = Inl (NotFoundException ''Event not found'')"
  | event where "getEvent eid s = Inr event"
  by (cases "find (\<lambda>e. ev_id e = eid) (artist_events s)") (auto simp: getEvent_def)

section \<open>Create RSVP: preconditions\<close>

lemma rsvp_missing:
  "getEvent eid s = Inl e \<Longrightarrow> rsvp env eid uid dto s = (Inl e, s)"
  by (simp add: rsvp_def)

lemma rsvp_past:
  "getEvent eid s = Inr event \<Longrightarrow> startTime event \<le> now env \<Longrightarrow>
   rsvp env eid uid dto s = (Inl (BadRequestException ''Cannot RSVP to a past event''), s)"
  by (simp add: rsvp_def)

lemma rsvp_existing:
  "getEvent eid s = Inr event \<Longrightarrow> now env < startTime event \<Longrightarrow>
   \<exists>r \<in> set (event_rsvps s). eventId r = eid \<and> userId r = uid \<Longrightarrow>
   rsvp env eid uid dto s = (Inl (ConflictException ''Already RSVPed to this event''), s)"
  by (auto simp: rsvp_def find_None_iff split: option.splits)

lemma rsvp_admitted:
  "getEvent eid s = Inr event \<Longrightarrow> now env < startTime event \<Longrightarrow>
   \<not> (\<exists>r \<in> set (event_rsvps s). eventId r = eid \<and> userId r = uid) \<Longrightarrow>
   rsvp env eid uid dto s = transaction (rsvp_cb env eid uid dto) s"
  by (auto simp: rsvp_def find_None_iff split: option.splits dest: find_SomeD)

text \<open>
  Claim C2. \<^verbatim>\<open>rsvp(eventId, userId, dto)\<close> checks its preconditions in the order the
  claim lists them: it fails with \<^verbatim>\<open>NotFoundException\<close> (NOT_FOUND) when no event has
  the identifier; with \<^verbatim>\<open>BadRequestException\<close> (INVALID_STATE) when the event exists and
  its start instant is at or before the clock of the call, whether or not an RSVP is
  stored; with \<^verbatim>\<open>ConflictException\<close> (ALREADY_EXISTS) in the case the first two leave,
  when the event exists, starts after the clock of the call, and an RSVP row for the pair
  is stored; and a call that succeeds has met all three preconditions. Every rejection
  leaves the store as it was.
\<close>

theorem rsvp_preconditions:
  "(\<not> (\<exists>e \<in> set (artist_events s). ev_id e = eid)
      \<longrightarrow> rsvp env eid uid dto s = (Inl (NotFoundException ''Event not found''), s))
   \<and> (\<forall>event. getEvent eid s = Inr event \<and> startTime event \<le> now env
      \<longrightarrow> rsvp env eid uid dto s = (Inl (BadRequestException ''Cannot RSVP to a past event''), s))
   \<and> (\<forall>event. getEvent eid s = Inr event \<and> now env < startTime event
         \<and> (\<exists>r \<in> set (event_rsvps s). eventId r = eid \<and> userId r = uid)
      \<longrightarrow> rsvp env eid uid dto s = (Inl (ConflictException ''Already RSVPed to this event''), s))
   \<and> (\<forall>row. fst (rsvp env eid uid dto s) = Inr row
      \<longrightarrow> (\<exists>event \<in> set (artist_events s). ev_id event = eid \<and> getEvent eid s = Inr event
              \<and> now env < startTime event)
          \<and> \<not> (\<exists>r \<in> set (event_rsvps s). eventId r = eid \<and> userId r = uid))"
proof (intro conjI allI impI)
  assume "\<not> (\<exists>e \<in> set (artist_events s). ev_id e = eid)"
  then have "getEvent eid s = Inl (NotFoundException ''Event not found'')"
    by (simp add: getEvent_missing)
  then show "rsvp env eid uid dto s = (Inl (NotFoundException ''Event not found''), s)"
    by (rule rsvp_missing)
next
  fix event
  assume "getEvent eid s = Inr event \<and> startTime event \<le> now env"
  then show "rsvp env eid uid dto s = (Inl (BadRequestException ''Cannot RSVP to a past event''), s)"
    by (simp add: rsvp_past)
next
  fix event
  assume "getEvent eid s = Inr event \<and> now env < startTime event
         \<and> (\<exists>r \<in> set (event_rsvps s). eventId r = eid \<and> userId r = uid)"
  then show "rsvp env eid uid dto s = (Inl (ConflictException ''Already RSVPed to this event''), s)"
    by (simp add: rsvp_existing)
next
  fix row
  assume ok: "fst (rsvp env eid uid dto s) = Inr row"
  show "\<exists>event \<in> set (artist_events s). ev_id event = eid \<and> getEvent eid s = Inr event
              \<and> now env < startTime event"
  proof (cases rule: getEvent_cases [of eid s])
    case 1
    with ok show ?thesis by (simp add: rsvp_missing)
  next
    case (2 event)
    with ok have "now env < startTime event"
      by (cases "startTime event \<le> now env") (simp_all add: rsvp_past)
    with 2 show ?thesis using getEvent_found by blast
  qed
next
  fix row
  assume ok: "fst (rsvp env eid uid dto s) = Inr row"
  show "\<not> (\<exists>r \<in> set (event_rsvps s). eventId r = eid \<and> userId r = uid)"
  proof (cases rule: getEvent_cases [of eid s])
    case 1
    with ok show ?thesis by (simp add: rsvp_missing)
  next
    case (2 event)
    show ?thesis
    proof (cases "startTime event \<le> now env")
      case True
      with 2 ok show ?thesis by (simp add: rsvp_past)
    next
      case False
      show ?thesis
      proof
        assume "\<exists>r \<in> set (event_rsvps s). eventId r = eid \<and> userId r = uid"
        with 2 False ok show False by (simp add: rsvp_existing)
      qed
    qed
  qed
qed

theorem rsvp_preconditions_witness:
  "rsvp (sample_env 0) ''e9'' ''u4'' no_dto sample_db
     = (Inl (NotFoundException ''Event not found''), sample_db)
   \<and> rsvp (sample_env 3480000) ''e1'' ''u4'' no_dto sample_db
     = (Inl (BadRequestException ''Cannot RSVP to a past event''), sample_db)
   \<and> rsvp (sample_env 0) ''e1'' ''u1'' no_dto sample_db
     = (Inl (ConflictException ''Already RSVPed to this event''), sample_db)
   \<and> fst (rsvp (sample_env 0) ''e1'' ''u4'' no_dto sample_db)
     = Inr \<lparr>rsvp_id = ''r4'', eventId = ''e1'', userId = ''u4'', reminderEnabled = True,
            reminderSent = False, createdAt = 0\<rparr>
   \<and> getEvent ''e1'' sample_db = Inr sample_event
   \<and> now (sample_env 0) < startTime sample_event"
  using rsvp_preconditions [of sample_db "''e9''" "sample_env 0" "''u4''" "no_dto"]
    rsvp_preconditions [of sample_db "''e1''" "sample_env 3480000" "''u4''" "no_dto"]
    rsvp_preconditions [of sample_db "''e1''" "sample_env 0" "''u1''" "no_dto"]
    rsvp_preconditions [of sample_db "''e1''" "sample_env 0" "''u4''" "no_dto"]
  by (simp add: sample_defs no_dto_def rsvp_def rsvp_cb_def transaction_def getEvent_def insert_rsvp_def
      increment_rsvpCount_def Let_def)

section \<open>Create RSVP: effect\<close>

lemma insert_rsvp_eq:
  "insert_rsvp env r s =
     (if insertable env r s then Inr (s\<lparr>event_rsvps := event_rsvps s @ [r]\<rparr>) else Inl StoreError)"
  unfolding insert_rsvp_def insertable_def by simp

lemma transaction_commits: "cb s = Inr (v, s') \<Longrightarrow> transaction cb s = (Inr v, s')"
  by (simp add: transaction_def)

lemma transaction_rolls_back: "cb s = Inl e \<Longrightarrow> transaction cb s = (Inl e, s)"
  by (simp add: transaction_def)

lemma rsvp_cb_eq:
  "rsvp_cb env eid uid dto s =
     (if insertable env (new_row env eid uid dto) s \<and> \<not> update_fails env
      then Inr (new_row env eid uid dto,
                s\<lparr>event_rsvps := event_rsvps s @ [new_row env eid uid dto],
                  artist_events :=
                    map (\<lambda>e. if ev_id e = eid then e\<lparr>rsvpCount := rsvpCount e + 1\<rparr> else e)
                      (artist_events s)\<rparr>)
      else Inl StoreError)"
  by (simp add: rsvp_cb_def Let_def insert_rsvp_eq increment_rsvpCount_def new_row_def)

lemma rsvp_failure_keeps_store:
  "fst (rsvp env eid uid dto s) = Inl e \<Longrightarrow> snd (rsvp env eid uid dto s) = s"
  by (auto simp: rsvp_def transaction_def split: sum.splits option.splits if_splits)

lemma rsvp_success:
  "rsvp env eid uid dto s = (Inr row, s') \<Longrightarrow> rsvp_cb env eid uid dto s = Inr (row, s')"
  by (auto simp: rsvp_def transaction_def split: sum.splits option.splits if_splits)

lemma insertable_admitted:
  assumes "getEvent eid s = Inr event"
    and "\<not> (\<exists>r \<in> set (event_rsvps s). eventId r = eid \<and> userId r = uid)"
  shows "insertable env (new_row env eid uid dto) s
           \<longleftrightarrow> \<not> save_fails env \<and> \<not> (\<exists>x \<in> set (event_rsvps s). rsvp_id x = new_uuid env)"
  using assms getEvent_found [OF assms(1)]
  by (auto simp: insertable_def new_row_def list_ex_iff)

text \<open>
  Claim C3. A call of \<^verbatim>\<open>rsvp\<close> that succeeds changes the store in exactly two places:
  it appends one RSVP row for the pair, with \<^verbatim>\<open>reminderEnabled\<close> the flag of the body
  or true when the body has none and \<^verbatim>\<open>reminderSent\<close> false, and it adds one to the
  counter of the event. A call that fails, anywhere, leaves the store as it was; in
  particular, once the preconditions hold, the transaction fails exactly when the store
  rejects the insertion or the counter update, and then the row is not there either.
\<close>

theorem rsvp_effect:
  "(\<forall>row s'. rsvp env eid uid dto s = (Inr row, s') \<longrightarrow>
        row = \<lparr>rsvp_id = new_uuid env, eventId = eid, userId = uid,
               reminderEnabled = (case dto_reminderEnabled dto of None \<Rightarrow> True | Some b \<Rightarrow> b),
               reminderSent = False, createdAt = now env\<rparr>
        \<and> s' = s\<lparr>event_rsvps := event_rsvps s @ [row],
                  artist_events :=
                    map (\<lambda>e. if ev_id e = eid then e\<lparr>rsvpCount := rsvpCount e + 1\<rparr> else e)
                      (artist_events s)\<rparr>)
   \<and> (\<forall>e. fst (rsvp env eid uid dto s) = Inl e \<longrightarrow> snd (rsvp env eid uid dto s) = s)
   \<and> (\<forall>event. getEvent eid s = Inr event \<and> now env < startTime event
          \<and> \<not> (\<exists>r \<in> set (event_rsvps s). eventId r = eid \<and> userId r = uid) \<longrightarrow>
        (if save_fails env \<or> update_fails env
            \<or> (\<exists>x \<in> set (event_rsvps s). rsvp_id x = new_uuid env)
         then rsvp env eid uid dto s = (Inl StoreError, s)
         else \<exists>row s'. rsvp env eid uid dto s = (Inr row, s')))"
proof (intro conjI allI impI)
  fix row s'
  assume "rsvp env eid uid dto s = (Inr row, s')"
  then have cb: "rsvp_cb env eid uid dto s = Inr (row, s')"
    by (rule rsvp_success)
  then have "row = new_row env eid uid dto"
    by (simp add: rsvp_cb_eq split: if_splits)
  then show "row = \<lparr>rsvp_id = new_uuid env, eventId = eid, userId = uid,
               reminderEnabled = (case dto_reminderEnabled dto of None \<Rightarrow> True | Some b \<Rightarrow> b),
               reminderSent = False, createdAt = now env\<rparr>"
    by (simp add: new_row_def)
  from cb show "s' = s\<lparr>event_rsvps := event_rsvps s @ [row],
                  artist_events :=
                    map (\<lambda>e. if ev_id e = eid then e\<lparr>rsvpCount := rsvpCount e + 1\<rparr> else e)
                      (artist_events s)\<rparr>"
    by (auto simp: rsvp_cb_eq split: if_splits)
next
  fix e
  assume "fst (rsvp env eid uid dto s) = Inl e"
  then show "snd (rsvp env eid uid dto s) = s"
    by (rule rsvp_failure_keeps_store)
next
  fix event
  assume adm: "getEvent eid s = Inr event \<and> now env < startTime event
          \<and> \<not> (\<exists>r \<in> set (event_rsvps s). eventId r = eid \<and> userId r = uid)"
  then have run: "rsvp env eid uid dto s = transaction (rsvp_cb env eid uid dto) s"
    by (simp add: rsvp_admitted)
  from adm have ins: "insertable env (new_row env eid uid dto) s
           \<longleftrightarrow> \<not> save_fails env \<and> \<not> (\<exists>x \<in> set (event_rsvps s). rsvp_id x = new_uuid env)"
    by (simp add: insertable_admitted)
  show "if save_fails env \<or> update_fails env
            \<or> (\<exists>x \<in> set (event_rsvps s). rsvp_id x = new_uuid env)
         then rsvp env eid uid dto s = (Inl StoreError, s)
         else \<exists>row s'. rsvp env eid uid dto s = (Inr row, s')"
  proof (cases "insertable env (new_row env eid uid dto) s \<and> \<not> update_fails env")
    case True
    then have "\<exists>row s'. rsvp_cb env eid uid dto s = Inr (row, s')"
      by (simp add: rsvp_cb_eq)
    then have "\<exists>row s'. rsvp env eid uid dto s = (Inr row, s')"
      unfolding run by (auto dest: transaction_commits)
    with True ins show ?thesis by auto
  next
    case False
    then have "rsvp_cb env eid uid dto s = Inl StoreError"
      by (simp add: rsvp_cb_eq)
    then have "rsvp env eid uid dto s = (Inl StoreError, s)"
      unfolding run by (rule transaction_rolls_back)
    with False ins show ?thesis by auto
  qed
qed

theorem rsvp_effect_witness:
  "rsvp (sample_env 0) ''e1'' ''u4'' no_dto sample_db
     = (Inr \<lparr>rsvp_id = ''r4'', eventId = ''e1'', userId = ''u4'', reminderEnabled = True,
             reminderSent = False, createdAt = 0\<rparr>,
        \<lparr>artist_events = [sample_event\<lparr>rsvpCount := 4\<rparr>],
         event_rsvps = event_rsvps sample_db @
           [\<lparr>rsvp_id = ''r4'', eventId = ''e1'', userId = ''u4'', reminderEnabled = True,
             reminderSent = False, createdAt = 0\<rparr>]\<rparr>)
   \<and> rsvp ((sample_env 0)\<lparr>update_fails := True\<rparr>) ''e1'' ''u4'' no_dto sample_db
     = (Inl StoreError, sample_db)
   \<and> getEvent ''e1'' sample_db = Inr sample_event"
  using rsvp_effect [of "sample_env 0" "''e1''" "''u4''" no_dto sample_db]
    rsvp_effect [of "(sample_env 0)\<lparr>update_fails := True\<rparr>" "''e1''" "''u4''" no_dto sample_db]
  by (simp add: sample_defs no_dto_def rsvp_def rsvp_cb_def transaction_def getEvent_def
      insert_rsvp_def increment_rsvpCount_def Let_def)

section \<open>Remove RSVP\<close>

lemma filter_key_remove1:
  "distinct (map f xs) \<Longrightarrow> x \<in> set xs \<Longrightarrow> filter (\<lambda>y. f y \<noteq> f x) xs = remove1 x xs"
proof (induction xs)
  case Nil
  then show ?case by simp
next
  case (Cons a xs)
  show ?case
  proof (cases "a = x")
    case True
    with Cons.prems have "f x \<notin> f ` set xs" by simp
    then have "\<forall>y \<in> set xs. f y \<noteq> f x" by (metis imageI)
    then have "filter (\<lambda>y. f y \<noteq> f x) xs = xs" by (simp add: filter_id_conv)
    with True show ?thesis by simp
  next
    case False
    with Cons.prems have "x \<in> set xs" and "f a \<noteq> f x" by force+
    with Cons False show ?thesis by simp
  qed
qed

lemma find_by_key:
  "distinct (map k xs) \<Longrightarrow> x \<in> set xs \<Longrightarrow> find (\<lambda>y. k y = k x) xs = Some x"
  by (induction xs) force+

lemma find_rsvp_unique:
  assumes "constraints s" and "row \<in> set (event_rsvps s)"
    and "eventId row = eid" and "userId row = uid"
  shows "find (\<lambda>r. eventId r = eid \<and> userId r = uid) (event_rsvps s) = Some row"
proof -
  from assms(1) have "distinct (map (\<lambda>r. (eventId r, userId r)) (event_rsvps s))"
    by (simp add: constraints_def)
  from find_by_key [OF this assms(2)] assms(3,4) show ?thesis by simp
qed

lemma unRsvp_cb_eq:
  "unRsvp_cb env eid row s =
     (if remove_fails env \<or> update_fails env then Inl StoreError
      else Inr ((), s\<lparr>event_rsvps := filter (\<lambda>x. rsvp_id x \<noteq> rsvp_id row) (event_rsvps s),
                     artist_events :=
                       map (\<lambda>e. if ev_id e = eid then e\<lparr>rsvpCount := max (rsvpCount e - 1) 0\<rparr> else e)
                         (artist_events s)\<rparr>))"
  by (simp add: unRsvp_cb_def remove_rsvp_def decrement_rsvpCount_def)

lemma unRsvp_missing:
  "\<not> (\<exists>r \<in> set (event_rsvps s). eventId r = eid \<and> userId r = uid) \<Longrightarrow>
   unRsvp env eid uid s = (Inl (NotFoundException ''RSVP not found''), s)"
  by (auto simp: unRsvp_def split: option.splits dest: find_SomeD)

lemma unRsvp_found:
  "find (\<lambda>r. eventId r = eid \<and> userId r = uid) (event_rsvps s) = Some row \<Longrightarrow>
   unRsvp env eid uid s = transaction (unRsvp_cb env eid row) s"
  by (simp add: unRsvp_def)

lemma clamp_decrement: "max (c - 1) 0 = (if c \<le> 0 then 0 else c - (1::int))"
  by simp

text \<open>
  Claim C4. On a store that meets the constraints of the schema,
  \<^verbatim>\<open>unRsvp(eventId, userId)\<close> fails with \<^verbatim>\<open>NotFoundException\<close> (NOT_FOUND) exactly
  when no RSVP row for the pair is stored, and then changes nothing. When the row is
  stored and the store accepts both writes, the call deletes that row and no other and
  lowers the counter of the event by one, a counter at zero staying at zero; when the store
  rejects a write of the transaction, neither the deletion nor the decrement is applied.
\<close>

theorem unRsvp_effect:
  assumes "constraints s"
  shows "(fst (unRsvp env eid uid s) = Inl (NotFoundException ''RSVP not found'')
            \<longleftrightarrow> \<not> (\<exists>r \<in> set (event_rsvps s). eventId r = eid \<and> userId r = uid))
   \<and> (\<not> (\<exists>r \<in> set (event_rsvps s). eventId r = eid \<and> userId r = uid)
        \<longrightarrow> snd (unRsvp env eid uid s) = s)
   \<and> (\<forall>row \<in> set (event_rsvps s). eventId row = eid \<and> userId row = uid \<longrightarrow>
        (if remove_fails env \<or> update_fails env
         then unRsvp env eid uid s = (Inl StoreError, s)
         else unRsvp env eid uid s =
                (Inr (),
                 s\<lparr>event_rsvps := remove1 row (event_rsvps s),
                   artist_events :=
                     map (\<lambda>e. if ev_id e = eid
                               then e\<lparr>rsvpCount := (if rsvpCount e \<le> 0 then 0 else rsvpCount e - 1)\<rparr>
                               else e)
                       (artist_events s)\<rparr>)))"
proof -
  have found: "if remove_fails env \<or> update_fails env
         then unRsvp env eid uid s = (Inl StoreError, s)
         else unRsvp env eid uid s =
                (Inr (),
                 s\<lparr>event_rsvps := remove1 row (event_rsvps s),
                   artist_events :=
                     map (\<lambda>e. if ev_id e = eid
                               then e\<lparr>rsvpCount := (if rsvpCount e \<le> 0 then 0 else rsvpCount e - 1)\<rparr>
                               else e)
                       (artist_events s)\<rparr>)"
    if row: "row \<in> set (event_rsvps s)" "eventId row = eid \<and> userId row = uid" for row
  proof -
    from assms row have "find (\<lambda>r. eventId r = eid \<and> userId r = uid) (event_rsvps s) = Some row"
      by (simp add: find_rsvp_unique)
    then have run: "unRsvp env eid uid s = transaction (unRsvp_cb env eid row) s"
      by (rule unRsvp_found)
    from assms have "distinct (map rsvp_id (event_rsvps s))"
      by (simp add: constraints_def)
    then have del: "filter (\<lambda>x. rsvp_id x \<noteq> rsvp_id row) (event_rsvps s) = remove1 row (event_rsvps s)"
      using row(1) by (rule filter_key_remove1)
    show ?thesis
      unfolding run by (simp add: transaction_def unRsvp_cb_eq del clamp_decrement)
  qed
  have missing: "unRsvp env eid uid s = (Inl (NotFoundException ''RSVP not found''), s)"
    if "\<not> (\<exists>r \<in> set (event_rsvps s). eventId r = eid \<and> userId r = uid)"
    using that by (rule unRsvp_missing)
  have "fst (unRsvp env eid uid s) \<noteq> Inl (NotFoundException ''RSVP not found'')"
    if "\<exists>r \<in> set (event_rsvps s). eventId r = eid \<and> userId r = uid"
  proof -
    from that obtain row where "row \<in> set (event_rsvps s)" "eventId row = eid \<and> userId row = uid"
      by blast
    from found [OF this] show ?thesis by (auto split: if_splits)
  qed
  with missing found show ?thesis by (auto simp del: One_nat_def)
qed

theorem unRsvp_effect_witness:
  "constraints sample_db \<and> constraints drifted_db
   \<and> unRsvp (sample_env 0) ''e1'' ''u1'' sample_db
       = (Inr (), \<lparr>artist_events = [sample_event\<lparr>rsvpCount := 2\<rparr>],
                  event_rsvps = [sample_rsvp ''r2'' ''u2'' True, sample_rsvp ''r3'' ''u3'' False]\<rparr>)
   \<and> unRsvp (sample_env 0) ''e1'' ''u1'' drifted_db
       = (Inr (), \<lparr>artist_events = [sample_event\<lparr>rsvpCount := 0\<rparr>],
                  event_rsvps = [sample_rsvp ''r2'' ''u2'' True, sample_rsvp ''r3'' ''u3'' False]\<rparr>)
   \<and> unRsvp ((sample_env 0)\<lparr>update_fails := True\<rparr>) ''e1'' ''u1'' sample_db
       = (Inl StoreError, sample_db)
   \<and> unRsvp (sample_env 0) ''e1'' ''u9'' sample_db
       = (Inl (NotFoundException ''RSVP not found''), sample_db)"
  using unRsvp_effect [of sample_db "sample_env 0" "''e1''" "''u1''"]
    unRsvp_effect [of drifted_db "sample_env 0" "''e1''" "''u1''"]
    unRsvp_effect [of sample_db "(sample_env 0)\<lparr>update_fails := True\<rparr>" "''e1''" "''u1''"]
    unRsvp_effect [of sample_db "sample_env 0" "''e1''" "''u9''"]
  by (simp add: sample_defs drifted_db_def constraints_def unRsvp_def unRsvp_cb_def transaction_def
      remove_rsvp_def decrement_rsvpCount_def)

lemma rsvp_cases:
  obtains (rejected) "snd (rsvp env eid uid dto s) = s"
  | (stored) "insertable env (new_row env eid uid dto) s"
      "snd (rsvp env eid uid dto s) =
         s\<lparr>event_rsvps := event_rsvps s @ [new_row env eid uid dto],
           artist_events :=
             map (\<lambda>e. if ev_id e = eid then e\<lparr>rsvpCount := rsvpCount e + 1\<rparr> else e)
               (artist_events s)\<rparr>"
proof (cases "fst (rsvp env eid uid dto s)")
  case (Inl e)
  then have "snd (rsvp env eid uid dto s) = s" by (rule rsvp_failure_keeps_store)
  then show ?thesis by (rule rejected)
next
  case (Inr row)
  then have "rsvp env eid uid dto s = (Inr row, snd (rsvp env eid uid dto s))"
    by (simp add: prod_eq_iff)
  then have "rsvp_cb env eid uid dto s = Inr (row, snd (rsvp env eid uid dto s))"
    by (rule rsvp_success)
  then show ?thesis
    by (intro stored) (auto simp: rsvp_cb_eq split: if_splits)
qed

lemma unRsvp_cases:
  obtains (rejected) "snd (unRsvp env eid uid s) = s"
  | (removed) row where "row \<in> set (event_rsvps s)" "eventId row = eid"
      "snd (unRsvp env eid uid s) =
         s\<lparr>event_rsvps := filter (\<lambda>x. rsvp_id x \<noteq> rsvp_id row) (event_rsvps s),
           artist_events :=
             map (\<lambda>e. if ev_id e = eid then e\<lparr>rsvpCount := max (rsvpCount e - 1) 0\<rparr> else e)
               (artist_events s)\<rparr>"
proof (cases "find (\<lambda>r. eventId r = eid \<and> userId r = uid) (event_rsvps s)")
  case None
  then have "snd (unRsvp env eid uid s) = s" by (simp add: unRsvp_def)
  then show ?thesis by (rule rejected)
next
  case (Some row)
  then have row: "row \<in> set (event_rsvps s)" "eventId row = eid"
    by (auto dest: find_SomeD)
  from Some have run: "unRsvp env eid uid s = transaction (unRsvp_cb env eid row) s"
    by (rule unRsvp_found)
  show ?thesis
  proof (cases "remove_fails env \<or> update_fails env")
    case True
    then have "snd (unRsvp env eid uid s) = s"
      unfolding run by (simp add: transaction_def unRsvp_cb_eq)
    then show ?thesis by (rule rejected)
  next
    case False
    then show ?thesis
      using row by (intro removed [of row]) (simp_all add: run transaction_def unRsvp_cb_eq)
  qed
qed

section \<open>The counter tracks the RSVP rows\<close>

lemma map_ev_id_bump:
  "map ev_id (map (\<lambda>e. if ev_id e = eid then e\<lparr>rsvpCount := f e\<rparr> else e) es) = map ev_id es"
  by (induction es) auto

lemma list_ex_ev_id_bump:
  "list_ex (\<lambda>e. ev_id e = k) (map (\<lambda>e. if ev_id e = eid then e\<lparr>rsvpCount := f e\<rparr> else e) es)
     = list_ex (\<lambda>e. ev_id e = k) es"
  by (induction es) auto

lemma constraints_stored:
  assumes "constraints s" and "insertable env r s"
  shows "constraints
           (s\<lparr>event_rsvps := event_rsvps s @ [r],
              artist_events :=
                map (\<lambda>e. if ev_id e = eid then e\<lparr>rsvpCount := f e\<rparr> else e) (artist_events s)\<rparr>)"
proof -
  let ?es = "map (\<lambda>e. if ev_id e = eid then e\<lparr>rsvpCount := f e\<rparr> else e) (artist_events s)"
  from assms(2) have fresh: "rsvp_id r \<notin> rsvp_id ` set (event_rsvps s)"
    and pair: "(eventId r, userId r) \<notin> (\<lambda>x. (eventId x, userId x)) ` set (event_rsvps s)"
    and fk: "list_ex (\<lambda>e. ev_id e = eventId r) (artist_events s)"
    by (auto simp: insertable_def list_ex_iff)
  have 1: "distinct (map ev_id ?es)"
    using assms(1) by (simp only: map_ev_id_bump constraints_def)
  have 2: "distinct (map rsvp_id (event_rsvps s @ [r]))"
    using assms(1) fresh by (simp add: constraints_def)
  have 3: "distinct (map (\<lambda>r. (eventId r, userId r)) (event_rsvps s @ [r]))"
    using assms(1) pair by (simp add: constraints_def)
  have 4: "list_all (\<lambda>r. list_ex (\<lambda>e. ev_id e = eventId r) ?es) (event_rsvps s @ [r])"
    using assms(1) fk by (simp only: list_ex_ev_id_bump) (simp add: constraints_def)
  from 1 2 3 4 show ?thesis
    by (simp add: constraints_def)
qed

lemma constraints_removed:
  assumes "constraints s"
  shows "constraints
           (s\<lparr>event_rsvps := filter P (event_rsvps s),
              artist_events :=
                map (\<lambda>e. if ev_id e = eid then e\<lparr>rsvpCount := f e\<rparr> else e) (artist_events s)\<rparr>)"
proof -
  let ?es = "map (\<lambda>e. if ev_id e = eid then e\<lparr>rsvpCount := f e\<rparr> else e) (artist_events s)"
  have 1: "distinct (map ev_id ?es)"
    using assms(1) by (simp only: map_ev_id_bump constraints_def)
  have 2: "distinct (map rsvp_id (filter P (event_rsvps s)))"
    using assms(1) by (simp add: constraints_def distinct_map_filter)
  have 3: "distinct (map (\<lambda>r. (eventId r, userId r)) (filter P (event_rsvps s)))"
    using assms(1) by (simp add: constraints_def distinct_map_filter)
  have 4: "list_all (\<lambda>r. list_ex (\<lambda>e. ev_id e = eventId r) ?es) (filter P (event_rsvps s))"
    using assms(1) by (simp only: list_ex_ev_id_bump) (simp add: constraints_def list_all_iff)
  from 1 2 3 4 show ?thesis
    by (simp add: constraints_def)
qed

lemma constraints_rsvp: "constraints s \<Longrightarrow> constraints (snd (rsvp env eid uid dto s))"
  by (cases rule: rsvp_cases [of env eid uid dto s]) (simp_all add: constraints_stored)

lemma constraints_unRsvp: "constraints s \<Longrightarrow> constraints (snd (unRsvp env eid uid s))"
  by (cases rule: unRsvp_cases [of env eid uid s]) (simp_all add: constraints_removed)

lemma constraints_apply_call: "constraints s \<Longrightarrow> constraints (apply_call c s)"
  by (cases c) (simp_all add: constraints_rsvp constraints_unRsvp)

lemma constraints_run_calls: "constraints s \<Longrightarrow> constraints (run_calls calls s)"
  unfolding run_calls_def
  by (induction calls arbitrary: s) (simp_all add: constraints_apply_call)

lemma length_filter_remove1:
  "x \<in> set xs \<Longrightarrow>
   length (filter P xs) = length (filter P (remove1 x xs)) + (if P x then 1 else 0)"
  by (induction xs) auto

lemma counter_exact_stored:
  assumes "counter_exact k s"
  shows "counter_exact k
           (s\<lparr>event_rsvps := event_rsvps s @ [r],
              artist_events :=
                map (\<lambda>e. if ev_id e = eventId r then e\<lparr>rsvpCount := rsvpCount e + 1\<rparr> else e)
                  (artist_events s)\<rparr>)"
  using assms
  unfolding counter_exact_def attendees_def list_all_iff
  by auto

lemma counter_exact_removed:
  assumes "counter_exact k s" and "distinct (map rsvp_id (event_rsvps s))"
    and "row \<in> set (event_rsvps s)"
  shows "counter_exact k
           (s\<lparr>event_rsvps := filter (\<lambda>x. rsvp_id x \<noteq> rsvp_id row) (event_rsvps s),
              artist_events :=
                map (\<lambda>e. if ev_id e = eventId row then e\<lparr>rsvpCount := max (rsvpCount e - 1) 0\<rparr> else e)
                  (artist_events s)\<rparr>)"
proof -
  let ?P = "\<lambda>r. eventId r = k"
  have del: "filter (\<lambda>x. rsvp_id x \<noteq> rsvp_id row) (event_rsvps s) = remove1 row (event_rsvps s)"
    using assms(2,3) by (rule filter_key_remove1)
  have len: "length (filter ?P (event_rsvps s))
               = length (filter ?P (remove1 row (event_rsvps s))) + (if ?P row then 1 else 0)"
    using assms(3) by (rule length_filter_remove1)
  show ?thesis
    using assms(1)
    unfolding counter_exact_def attendees_def list_all_iff del
    by (auto simp: len)
qed

lemma counter_exact_rsvp:
  "counter_exact k s \<Longrightarrow> counter_exact k (snd (rsvp env eid uid dto s))"
proof (cases rule: rsvp_cases [of env eid uid dto s])
  case rejected
  assume "counter_exact k s"
  with rejected show ?thesis by simp
next
  case stored
  assume "counter_exact k s"
  then show ?thesis
    using counter_exact_stored [of k s "new_row env eid uid dto"]
    by (simp add: stored(2) new_row_def)
qed

lemma counter_exact_unRsvp:
  assumes "constraints s" and "counter_exact k s"
  shows "counter_exact k (snd (unRsvp env eid uid s))"
proof (cases rule: unRsvp_cases [of env eid uid s])
  case rejected
  with assms show ?thesis by simp
next
  case (removed row)
  from assms(1) have "distinct (map rsvp_id (event_rsvps s))"
    by (simp add: constraints_def)
  from counter_exact_removed [OF assms(2) this removed(1)] show ?thesis
    by (simp add: removed(2,3))
qed

lemma counter_exact_apply_call:
  "constraints s \<Longrightarrow> counter_exact k s \<Longrightarrow> counter_exact k (apply_call c s)"
  by (cases c) (simp_all add: counter_exact_rsvp counter_exact_unRsvp)

lemma counter_exact_run_calls:
  "constraints s \<Longrightarrow> counter_exact k s \<Longrightarrow> counter_exact k (run_calls calls s)"
  unfolding run_calls_def
proof (induction calls arbitrary: s)
  case Nil
  then show ?case by simp
next
  case (Cons c calls)
  from Cons.prems have "constraints (apply_call c s)" and "counter_exact k (apply_call c s)"
    by (simp_all add: constraints_apply_call counter_exact_apply_call)
  then show ?case by (simp add: Cons.IH)
qed

lemma counter_exact_nonneg: "counter_exact k s \<Longrightarrow> counter_nonneg k s"
  unfolding counter_exact_def counter_nonneg_def list_all_iff by auto

text \<open>
  Claim C1. Take a store that meets the constraints of the schema and an event identifier
  whose counter equals the number of RSVP rows that reference the event. After any
  sequence of \<^verbatim>\<open>rsvp\<close> and \<^verbatim>\<open>unRsvp\<close> calls, on this event or on others, by any
  users, at any clock, succeeding or failing, the counter again equals the number of RSVP
  rows of the event, and it is not negative; the same holds after every prefix of the
  sequence.
\<close>

theorem counter_tracks_rsvps:
  assumes "constraints s" and "counter_exact eid s"
  shows "counter_exact eid (run_calls calls s) \<and> counter_nonneg eid (run_calls calls s)
    \<and> (\<forall>n. counter_exact eid (run_calls (take n calls) s)
           \<and> counter_nonneg eid (run_calls (take n calls) s))"
proof -
  have exact: "counter_exact eid (run_calls cs s)" for cs
    using assms by (rule counter_exact_run_calls)
  then have nonneg: "counter_nonneg eid (run_calls cs s)" for cs
    by (rule counter_exact_nonneg)
  from exact nonneg show ?thesis by blast
qed

theorem counter_tracks_rsvps_witness:
  "constraints sample_db \<and> counter_exact ''e1'' sample_db
   \<and> run_calls sample_calls sample_db
       = \<lparr>artist_events = [sample_event\<lparr>rsvpCount := 2\<rparr>],
          event_rsvps = [sample_rsvp ''r2'' ''u2'' True,
                         \<lparr>rsvp_id = ''r4'', eventId = ''e1'', userId = ''u4'', reminderEnabled = True,
                          reminderSent = False, createdAt = 0\<rparr>]\<rparr>
   \<and> counter_exact ''e1'' (run_calls sample_calls sample_db)
   \<and> counter_nonneg ''e1'' (run_calls sample_calls sample_db)"
proof -
  have c: "constraints sample_db"
    by (simp add: sample_defs constraints_def)
  have e: "counter_exact ''e1'' sample_db"
    by (simp add: sample_defs counter_exact_def attendees_def)
  have r: "run_calls sample_calls sample_db
       = \<lparr>artist_events = [sample_event\<lparr>rsvpCount := 2\<rparr>],
          event_rsvps = [sample_rsvp ''r2'' ''u2'' True,
                         \<lparr>rsvp_id = ''r4'', eventId = ''e1'', userId = ''u4'', reminderEnabled = True,
                          reminderSent = False, createdAt = 0\<rparr>]\<rparr>"
    by (simp add: run_calls_def sample_calls_def sample_defs no_dto_def rsvp_def rsvp_cb_def
        unRsvp_def unRsvp_cb_def transaction_def getEvent_def insert_rsvp_def remove_rsvp_def
        increment_rsvpCount_def decrement_rsvpCount_def Let_def)
  from c e r counter_tracks_rsvps [OF c e, of sample_calls] show ?thesis
    by simp
qed

section \<open>Candidate selection of the sweep\<close>

text \<open>
  Claim C5. At every clock \<open>t\<close>, \<^verbatim>\<open>getEventsStartingSoon\<close> selects exactly the stored
  events whose start instant lies after \<open>t\<close> plus 55 minutes and at or before \<open>t\<close> plus
  60 minutes (3300000 and 3600000 milliseconds), in the order of the table. An event
  starting in 58 minutes is selected; an event starting in 50 or in 70 minutes is not.
\<close>

theorem getEventsStartingSoon_window:
  "(e \<in> set (getEventsStartingSoon t s)
      \<longleftrightarrow> e \<in> set (artist_events s) \<and> t + 3300000 < startTime e \<and> startTime e \<le> t + 3600000)
   \<and> (e \<in> set (artist_events s) \<and> startTime e = t + 58 * 60000
        \<longrightarrow> e \<in> set (getEventsStartingSoon t s))
   \<and> (startTime e = t + 50 * 60000 \<or> startTime e = t + 70 * 60000
        \<longrightarrow> e \<notin> set (getEventsStartingSoon t s))
   \<and> getEventsStartingSoon t s
       = filter (\<lambda>e. t + 3300000 < startTime e \<and> startTime e \<le> t + 3600000) (artist_events s)"
  by (auto simp: getEventsStartingSoon_def Let_def)

theorem getEventsStartingSoon_window_witness:
  "getEventsStartingSoon 0 sample_db = [sample_event]
   \<and> startTime sample_event = 0 + 58 * 60000
   \<and> getEventsStartingSoon 480000 sample_db = []
   \<and> startTime sample_event = 480000 + 50 * 60000
   \<and> getEventsStartingSoon (- 720000) sample_db = []
   \<and> startTime sample_event = - 720000 + 70 * 60000"
  using getEventsStartingSoon_window [of sample_event 0 sample_db]
    getEventsStartingSoon_window [of sample_event 480000 sample_db]
    getEventsStartingSoon_window [of sample_event "- 720000" sample_db]
  by (simp add: sample_defs getEventsStartingSoon_def Let_def)

text \<open>
  Claim C8. For two sweeps one period apart, at \<open>t\<close> and at \<open>t\<close> plus 5 minutes, no
  event is selected by both, and an event is selected by one of them exactly when it is
  stored and starts after \<open>t\<close> plus 55 minutes and at or before \<open>t\<close> plus 65 minutes: the
  two windows are disjoint and leave no gap.
\<close>

theorem consecutive_sweeps_partition:
  "\<not> (e \<in> set (getEventsStartingSoon t s) \<and> e \<in> set (getEventsStartingSoon (t + sweep_period) s))
   \<and> (e \<in> set (getEventsStartingSoon t s) \<or> e \<in> set (getEventsStartingSoon (t + sweep_period) s)
        \<longleftrightarrow> e \<in> set (artist_events s) \<and> t + 55 * 60000 < startTime e \<and> startTime e \<le> t + 65 * 60000)"
  by (auto simp: getEventsStartingSoon_def sweep_period_def Let_def)

theorem consecutive_sweeps_partition_witness:
  "sample_event \<in> set (getEventsStartingSoon 0 sample_db)
   \<and> sample_event \<notin> set (getEventsStartingSoon (0 + sweep_period) sample_db)
   \<and> sample_event \<notin> set (getEventsStartingSoon (- 300000) sample_db)
   \<and> sample_event \<in> set (getEventsStartingSoon (- 300000 + sweep_period) sample_db)"
  using consecutive_sweeps_partition [of sample_event 0 sample_db]
    consecutive_sweeps_partition [of sample_event "- 300000" sample_db]
  by (simp add: sample_defs sweep_period_def getEventsStartingSoon_def Let_def)

section \<open>Feed of a user who follows nobody\<close>

text \<open>
  Claim C9. For every pagination argument, \<^verbatim>\<open>getFeed\<close> with an empty list of followed
  artists returns a page with no data and a total of 0, sends no query to the store, and
  returns the same for every store and every clock.
\<close>

theorem getFeed_empty:
  "getFeed t [] pagination s
     = (new_PaginatedResult [] 0
          (case dto_page pagination of None \<Rightarrow> 1 | Some x \<Rightarrow> x)
          (case dto_limit pagination of None \<Rightarrow> 20 | Some x \<Rightarrow> x), [])
   \<and> data (fst (getFeed t [] pagination s)) = []
   \<and> total (fst (getFeed t [] pagination s)) = 0
   \<and> snd (getFeed t [] pagination s) = []
   \<and> getFeed t [] pagination s = getFeed t' [] pagination s'"
  by (simp add: getFeed_def new_PaginatedResult_def Let_def)

theorem getFeed_empty_witness:
  "getFeed 0 [] no_pagination sample_db
     = (\<lparr>data = [], total = 0, page = 1, limit = 20, totalPages = Some 0\<rparr>, [])
   \<and> getFeed 0 [''a1''] no_pagination sample_db
     = (\<lparr>data = [sample_event], total = 1, page = 1, limit = 20, totalPages = Some 1\<rparr>,
        [FindAndCount [''a1''] 0 0 20])"
  using getFeed_empty [of 0 no_pagination sample_db 0 sample_db]
  by (simp add: getFeed_def findAndCount_def new_PaginatedResult_def no_pagination_def sample_defs Let_def)

section \<open>Editing an event\<close>

lemma updateEvent_owned:
  assumes "getEvent eid s = Inr event" and "artistId event = aid"
  shows "updateEvent env eid aid dto s =
     (let st = (case u_startTime dto of Some t \<Rightarrow> t | None \<Rightarrow> startTime event);
          en = (case u_endTime dto of Some t \<Rightarrow> Some t | None \<Rightarrow> endTime event)
      in if ends_before en st
         then (Inl (BadRequestException ''End time must be after start time''), s)
         else if save_fails env then (Inl StoreError, s)
         else (Inr (assign event dto st en),
               s\<lparr>artist_events :=
                   map (\<lambda>x. if ev_id x = eid then assign event dto st en else x) (artist_events s)\<rparr>))"
proof -
  from assms(1) have "ev_id event = eid" by (simp add: getEvent_found)
  then have "ev_id (assign event dto st en) = eid" for st en
    by (simp add: assign_def)
  with assms show ?thesis
    by (simp add: updateEvent_def save_event_def Let_def)
qed

lemma ends_before_iff: "ends_before en st \<longleftrightarrow> (\<exists>t. en = Some t \<and> t \<le> st)"
  by (cases en) (simp_all add: ends_before_def)

text \<open>
  Claim C10. For an event the artist owns, \<^verbatim>\<open>updateEvent\<close> throws a
  \<^verbatim>\<open>BadRequestException\<close> (INVALID_STATE) exactly when the effective end (the body's,
  or else the stored one) is present and at or before the effective start (the body's, or
  else the stored one). It does not compare the start with the clock: when the effective
  start is at or before the clock, the ordering holds and the store accepts the write, the
  update succeeds and the event is stored with that start. \<^verbatim>\<open>createEvent\<close> rejects a
  start at or before the clock.
\<close>

theorem updateEvent_ignores_clock:
  assumes "getEvent eid s = Inr event" and "artistId event = aid"
    and "st = (case u_startTime dto of Some t \<Rightarrow> t | None \<Rightarrow> startTime event)"
    and "en = (case u_endTime dto of Some t \<Rightarrow> Some t | None \<Rightarrow> endTime event)"
  shows "((\<exists>msg. fst (updateEvent env eid aid dto s) = Inl (BadRequestException msg))
            \<longleftrightarrow> (\<exists>t. en = Some t \<and> t \<le> st))
    \<and> (st \<le> now env \<and> \<not> (\<exists>t. en = Some t \<and> t \<le> st) \<and> \<not> save_fails env \<longrightarrow>
          fst (updateEvent env eid aid dto s) = Inr (assign event dto st en)
          \<and> startTime (assign event dto st en) = st
          \<and> artist_events (snd (updateEvent env eid aid dto s))
              = map (\<lambda>x. if ev_id x = eid then assign event dto st en else x) (artist_events s))
    \<and> (c_startTime cdto \<le> now env \<longrightarrow>
          createEvent env aid cdto s
            = (Inl (BadRequestException ''Event start time must be in the future''), s))"
proof -
  have upd: "updateEvent env eid aid dto s =
      (if ends_before en st
         then (Inl (BadRequestException ''End time must be after start time''), s)
         else if save_fails env then (Inl StoreError, s)
         else (Inr (assign event dto st en),
               s\<lparr>artist_events :=
                   map (\<lambda>x. if ev_id x = eid then assign event dto st en else x) (artist_events s)\<rparr>))"
    using updateEvent_owned [OF assms(1,2), of env dto] assms(3,4) by (simp add: Let_def)
  have 1: "(\<exists>msg. fst (updateEvent env eid aid dto s) = Inl (BadRequestException msg))
            \<longleftrightarrow> (\<exists>t. en = Some t \<and> t \<le> st)"
    unfolding upd ends_before_iff [symmetric] by simp
  have 2: "fst (updateEvent env eid aid dto s) = Inr (assign event dto st en)
          \<and> startTime (assign event dto st en) = st
          \<and> artist_events (snd (updateEvent env eid aid dto s))
              = map (\<lambda>x. if ev_id x = eid then assign event dto st en else x) (artist_events s)"
    if "\<not> (\<exists>t. en = Some t \<and> t \<le> st)" "\<not> save_fails env"
    using that unfolding upd ends_before_iff [symmetric] by (simp add: assign_def)
  have 3: "createEvent env aid cdto s
            = (Inl (BadRequestException ''Event start time must be in the future''), s)"
    if "c_startTime cdto \<le> now env"
    using that by (simp add: createEvent_def Let_def)
  from 1 2 3 show ?thesis by blast
qed

theorem updateEvent_ignores_clock_witness:
  "getEvent ''e1'' sample_db = Inr sample_event \<and> artistId sample_event = ''a1''
   \<and> (5::int) \<le> now (sample_env 9000000)
   \<and> fst (updateEvent (sample_env 9000000) ''e1'' ''a1'' move_start sample_db)
       = Inr (sample_event\<lparr>startTime := 5\<rparr>)
   \<and> artist_events (snd (updateEvent (sample_env 9000000) ''e1'' ''a1'' move_start sample_db))
       = [sample_event\<lparr>startTime := 5\<rparr>]
   \<and> createEvent (sample_env 9000000) ''a1'' create_early sample_db
       = (Inl (BadRequestException ''Event start time must be in the future''), sample_db)"
  using updateEvent_ignores_clock [of "''e1''" sample_db sample_event "''a1''" 5 move_start None
      "sample_env 9000000" create_early]
  by (simp add: sample_defs move_start_def create_early_def getEvent_def updateEvent_def
      createEvent_def save_event_def assign_def ends_before_def Let_def)

section \<open>The sweep in terms of the store it starts from\<close>

text \<open>The rows a batch update by identifier touches are the fetched rows.\<close>

lemma key_mem_iff:
  assumes "distinct (map f xs)" and "x \<in> set xs" and "set ys \<subseteq> set xs"
  shows "f x \<in> f ` set ys \<longleftrightarrow> x \<in> set ys"
proof
  assume "f x \<in> f ` set ys"
  then obtain y where y: "y \<in> set ys" "f y = f x" by auto
  from assms(1) have "inj_on f (set xs)" by (simp add: distinct_map)
  with y assms(2,3) have "y = x" by (auto dest: inj_onD)
  with y show "x \<in> set ys" by simp
qed simp

lemma fetched_iff:
  "r \<in> set (getRsvpsForReminder eid s) \<longleftrightarrow> r \<in> set (event_rsvps s) \<and> eventId r = eid \<and> pending r"
  by (auto simp: getRsvpsForReminder_def pending_def)

lemma markReminderSent_fetched:
  assumes "distinct (map rsvp_id (event_rsvps s))"
  shows "event_rsvps (markReminderSent (map rsvp_id (getRsvpsForReminder eid s)) s)
           = map (\<lambda>r. if pending r \<and> eventId r = eid then r\<lparr>reminderSent := True\<rparr> else r)
               (event_rsvps s)"
proof (cases "getRsvpsForReminder eid s = []")
  case True
  then have "\<forall>r \<in> set (event_rsvps s). \<not> (pending r \<and> eventId r = eid)"
    using fetched_iff [of _ eid s] by auto
  then have "map (\<lambda>r. if pending r \<and> eventId r = eid then r\<lparr>reminderSent := True\<rparr> else r)
               (event_rsvps s) = event_rsvps s"
    by (intro map_idI) auto
  with True show ?thesis by (simp add: markReminderSent_def)
next
  case False
  have sub: "set (getRsvpsForReminder eid s) \<subseteq> set (event_rsvps s)"
    by (simp add: getRsvpsForReminder_def)
  have "rsvp_id r \<in> set (map rsvp_id (getRsvpsForReminder eid s)) \<longleftrightarrow> pending r \<and> eventId r = eid"
    if "r \<in> set (event_rsvps s)" for r
    using key_mem_iff [OF assms that sub] that by (auto simp: fetched_iff)
  with False show ?thesis
    by (simp add: markReminderSent_def)
qed

lemma artist_events_markReminderSent: "artist_events (markReminderSent ids s) = artist_events s"
  by (simp add: markReminderSent_def)

text \<open>One turn of the loop.\<close>

lemma try_event_eq:
  "try_event senv ev w =
     (if fetch_fails senv (ev_id ev) then (Some StoreError, w)
      else if getRsvpsForReminder (ev_id ev) (store w) = [] then (None, w)
      else if dispatch_fails senv (map userId (getRsvpsForReminder (ev_id ev) (store w))) ev
        then (Some DispatchError,
              w\<lparr>dispatched := dispatched w @ [(map userId (getRsvpsForReminder (ev_id ev) (store w)), ev)]\<rparr>)
      else if mark_fails senv (map rsvp_id (getRsvpsForReminder (ev_id ev) (store w)))
        then (Some StoreError,
              w\<lparr>dispatched := dispatched w @ [(map userId (getRsvpsForReminder (ev_id ev) (store w)), ev)]\<rparr>)
      else (None,
            w\<lparr>dispatched := dispatched w @ [(map userId (getRsvpsForReminder (ev_id ev) (store w)), ev)],
              store := markReminderSent (map rsvp_id (getRsvpsForReminder (ev_id ev) (store w))) (store w),
              totalSent := totalSent w + int (length (getRsvpsForReminder (ev_id ev) (store w)))\<rparr>))"
  by (simp add: try_event_def Let_def)

lemma for_event_dispatched:
  "dispatched (for_event senv ev w) = dispatched w @ call_for senv (store w) ev"
  by (simp add: for_event_def try_event_eq call_for_def reached_def)

lemma for_event_store:
  "store (for_event senv ev w) =
     (if delivered senv (store w) ev
      then markReminderSent (map rsvp_id (getRsvpsForReminder (ev_id ev) (store w))) (store w)
      else store w)"
  by (simp add: for_event_def try_event_eq delivered_def reached_def)

lemma for_event_events:
  "artist_events (store (for_event senv ev w)) = artist_events (store w)"
  by (simp add: for_event_store artist_events_markReminderSent)

lemma for_event_rows:
  assumes "distinct (map rsvp_id (event_rsvps (store w)))"
  shows "event_rsvps (store (for_event senv ev w))
           = map (mark_for senv (store w) [ev]) (event_rsvps (store w))"
proof (cases "delivered senv (store w) ev")
  case True
  then have "mark_for senv (store w) [ev]
               = (\<lambda>r. if pending r \<and> eventId r = ev_id ev then r\<lparr>reminderSent := True\<rparr> else r)"
    by (auto simp: mark_for_def fun_eq_iff)
  with True assms show ?thesis
    by (simp add: for_event_store markReminderSent_fetched)
next
  case False
  then have "mark_for senv (store w) [ev] = (\<lambda>r. r)"
    by (auto simp: mark_for_def fun_eq_iff)
  with False show ?thesis
    by (simp add: for_event_store)
qed

text \<open>Marking the rows of one event does not change what is fetched for another.\<close>

lemma filter_map_fixed:
  "(\<And>x. x \<in> set xs \<Longrightarrow> P (f x) = P x) \<Longrightarrow> (\<And>x. x \<in> set xs \<Longrightarrow> P x \<Longrightarrow> f x = x) \<Longrightarrow>
   filter P (map f xs) = filter P xs"
  by (induction xs) auto

lemma fetch_after_mark:
  assumes "event_rsvps s' = map (mark_for senv s [ev]) (event_rsvps s)" and "eid \<noteq> ev_id ev"
  shows "getRsvpsForReminder eid s' = getRsvpsForReminder eid s"
  unfolding getRsvpsForReminder_def assms(1)
  using assms(2) by (intro filter_map_fixed) (auto simp: mark_for_def)

lemma rsvp_id_mark_for: "rsvp_id (mark_for senv s evs r) = rsvp_id r"
  by (simp add: mark_for_def)

lemma mark_for_Cons:
  "mark_for senv s evs (mark_for senv s [ev] r) = mark_for senv s (ev # evs) r"
  by (auto simp: mark_for_def pending_def)

lemma mark_for_cong:
  assumes "\<And>ev. ev \<in> set evs \<Longrightarrow> delivered senv s' ev = delivered senv s ev"
  shows "mark_for senv s' evs = mark_for senv s evs"
proof -
  have "list_ex (\<lambda>ev. ev_id ev = k \<and> delivered senv s' ev) evs
          = list_ex (\<lambda>ev. ev_id ev = k \<and> delivered senv s ev) evs" for k
    using assms by (auto simp: list_ex_iff)
  then show ?thesis by (simp add: mark_for_def fun_eq_iff)
qed

lemma sweep_fold:
  assumes "distinct (map ev_id evs)" and "distinct (map rsvp_id (event_rsvps (store w)))"
  shows "event_rsvps (store (fold (for_event senv) evs w))
           = map (mark_for senv (store w) evs) (event_rsvps (store w))
    \<and> dispatched (fold (for_event senv) evs w)
           = dispatched w @ concat (map (call_for senv (store w)) evs)
    \<and> artist_events (store (fold (for_event senv) evs w)) = artist_events (store w)"
  using assms
proof (induction evs arbitrary: w)
  case Nil
  have "mark_for senv (store w) [] = (\<lambda>r. r)"
    by (simp add: mark_for_def fun_eq_iff)
  then show ?case by simp
next
  case (Cons ev evs)
  let ?w1 = "for_event senv ev w"
  have rows1: "event_rsvps (store ?w1) = map (mark_for senv (store w) [ev]) (event_rsvps (store w))"
    using Cons.prems(2) by (rule for_event_rows)
  then have d1: "distinct (map rsvp_id (event_rsvps (store ?w1)))"
    using Cons.prems(2) by (simp add: o_def rsvp_id_mark_for)
  from Cons.prems(1) have dev: "distinct (map ev_id evs)" and "ev_id ev \<notin> ev_id ` set evs"
    by simp_all
  then have other: "ev_id e \<noteq> ev_id ev" if "e \<in> set evs" for e
    using that by (metis imageI)
  have fetch: "getRsvpsForReminder (ev_id e) (store ?w1) = getRsvpsForReminder (ev_id e) (store w)"
    if "e \<in> set evs" for e
    using rows1 other [OF that] by (rule fetch_after_mark)
  have call: "call_for senv (store ?w1) e = call_for senv (store w) e" if "e \<in> set evs" for e
    using fetch [OF that] by (simp add: call_for_def reached_def)
  have deliv: "delivered senv (store ?w1) e = delivered senv (store w) e" if "e \<in> set evs" for e
    using fetch [OF that] by (simp add: delivered_def reached_def)
  have marks: "mark_for senv (store ?w1) evs = mark_for senv (store w) evs"
    using deliv by (rule mark_for_cong)
  from Cons.IH [OF dev d1]
  have ih: "event_rsvps (store (fold (for_event senv) evs ?w1))
           = map (mark_for senv (store ?w1) evs) (event_rsvps (store ?w1))"
    and ihd: "dispatched (fold (for_event senv) evs ?w1)
           = dispatched ?w1 @ concat (map (call_for senv (store ?w1)) evs)"
    and ihe: "artist_events (store (fold (for_event senv) evs ?w1)) = artist_events (store ?w1)"
    by simp_all
  have 1: "event_rsvps (store (fold (for_event senv) (ev # evs) w))
           = map (mark_for senv (store w) (ev # evs)) (event_rsvps (store w))"
    by (simp add: ih marks rows1 o_def mark_for_Cons)
  have "map (call_for senv (store ?w1)) evs = map (call_for senv (store w)) evs"
    using call by (intro map_cong) simp_all
  then have cc: "concat (map (call_for senv (store ?w1)) evs) = concat (map (call_for senv (store w)) evs)"
    by (rule arg_cong)
  have 2: "dispatched (fold (for_event senv) (ev # evs) w)
           = dispatched w @ concat (map (call_for senv (store w)) (ev # evs))"
    by (simp add: ihd for_event_dispatched cc)
  have 3: "artist_events (store (fold (for_event senv) (ev # evs) w)) = artist_events (store w)"
    by (simp add: ihe for_event_events)
  from 1 2 3 show ?case by blast
qed

text \<open>The whole sweep, in terms of the store it starts from.\<close>

lemma candidates_distinct:
  "constraints s \<Longrightarrow> distinct (map ev_id (getEventsStartingSoon t s))"
  by (simp add: constraints_def getEventsStartingSoon_def Let_def distinct_map_filter)

lemma sendEventReminders_eq:
  assumes "constraints s"
  shows "event_rsvps (store (sendEventReminders senv t s))
           = map (mark_for senv s (getEventsStartingSoon t s)) (event_rsvps s)
    \<and> dispatched (sendEventReminders senv t s)
           = concat (map (call_for senv s) (getEventsStartingSoon t s))
    \<and> artist_events (store (sendEventReminders senv t s)) = artist_events s"
proof -
  let ?w0 = "\<lparr>store = s, dispatched = [], failed = [], totalSent = 0\<rparr>"
  have run: "sendEventReminders senv t s = fold (for_event senv) (getEventsStartingSoon t s) ?w0"
    by (cases "getEventsStartingSoon t s") (simp_all add: sendEventReminders_def Let_def)
  from assms have "distinct (map rsvp_id (event_rsvps (store ?w0)))"
    by (simp add: constraints_def)
  from sweep_fold [OF candidates_distinct [OF assms] this, of senv t] show ?thesis
    unfolding run by simp
qed

lemma call_for_short: "length (filter P (call_for senv s ev)) \<le> Suc 0"
  by (simp add: call_for_def)

lemma call_for_other:
  "k \<noteq> ev_id ev \<Longrightarrow> filter (\<lambda>c. ev_id (snd c) = k) (call_for senv s ev) = []"
  by (simp add: call_for_def)

lemma calls_of_others:
  "k \<notin> ev_id ` set evs \<Longrightarrow>
   filter (\<lambda>c. ev_id (snd c) = k) (concat (map (call_for senv s) evs)) = []"
  by (induction evs) (simp_all add: call_for_other)

lemma calls_at_most_once:
  "distinct (map ev_id evs) \<Longrightarrow>
   length (filter (\<lambda>c. ev_id (snd c) = k) (concat (map (call_for senv s) evs))) \<le> 1"
proof (induction evs)
  case Nil
  then show ?case by simp
next
  case (Cons ev evs)
  show ?case
  proof (cases "ev_id ev = k")
    case True
    with Cons.prems have "k \<notin> ev_id ` set evs" by simp
    then have "filter (\<lambda>c. ev_id (snd c) = k) (concat (map (call_for senv s) evs)) = []"
      by (rule calls_of_others)
    then show ?thesis by (simp add: call_for_short)
  next
    case False
    then have "filter (\<lambda>c. ev_id (snd c) = k) (call_for senv s ev) = []"
      by (intro call_for_other) simp
    with Cons show ?thesis by simp
  qed
qed

lemma mark_for_unfold:
  "mark_for senv s evs r =
     (if reminderEnabled r \<and> \<not> reminderSent r
         \<and> (\<exists>ev \<in> set evs. ev_id ev = eventId r \<and> delivered senv s ev)
      then r\<lparr>reminderSent := True\<rparr> else r)"
  by (simp add: mark_for_def pending_def list_ex_iff)

lemmas sweep_defs = sendEventReminders_def for_event_def try_event_def getEventsStartingSoon_def
  getRsvpsForReminder_def markReminderSent_def Let_def

section \<open>What one sweep dispatches and marks\<close>

text \<open>
  Claim C6. On a store that meets the constraints of the schema, one sweep calls the
  dispatch capability, in the order of the candidate events, once for each candidate whose
  fetch succeeds and returns rows, and for no other event: at most once per event, never
  with an empty list, and always with the user identifiers of exactly the RSVP rows of the
  event that have \<^verbatim>\<open>reminderEnabled\<close> true and \<^verbatim>\<open>reminderSent\<close> false. After the sweep the RSVP
  table is the old one in which \<^verbatim>\<open>reminderSent\<close> is true on exactly the pending rows of the
  candidates whose dispatch and update succeeded; every other row, so every row with
  \<^verbatim>\<open>reminderEnabled\<close> false, is unchanged, and so is the event table. In each turn of the
  loop the rows are marked by one call of \<^verbatim>\<open>markReminderSent\<close> with the identifiers of
  all fetched rows.
\<close>

theorem sweep_dispatches_pending:
  assumes "constraints s"
  shows "dispatched (sendEventReminders senv t s)
           = concat (map (\<lambda>ev. if \<not> fetch_fails senv (ev_id ev) \<and> getRsvpsForReminder (ev_id ev) s \<noteq> []
                               then [(map userId (getRsvpsForReminder (ev_id ev) s), ev)] else [])
                       (getEventsStartingSoon t s))
    \<and> (\<forall>k. length (filter (\<lambda>c. ev_id (snd c) = k) (dispatched (sendEventReminders senv t s))) \<le> 1)
    \<and> (\<forall>c \<in> set (dispatched (sendEventReminders senv t s)).
          snd c \<in> set (getEventsStartingSoon t s) \<and> fst c \<noteq> []
          \<and> fst c = map userId (filter (\<lambda>r. eventId r = ev_id (snd c) \<and> reminderEnabled r
                                              \<and> \<not> reminderSent r) (event_rsvps s)))
    \<and> event_rsvps (store (sendEventReminders senv t s))
         = map (\<lambda>r. if reminderEnabled r \<and> \<not> reminderSent r
                        \<and> (\<exists>ev \<in> set (getEventsStartingSoon t s).
                              ev_id ev = eventId r \<and> delivered senv s ev)
                     then r\<lparr>reminderSent := True\<rparr> else r)
             (event_rsvps s)
    \<and> artist_events (store (sendEventReminders senv t s)) = artist_events s
    \<and> (\<forall>ev w. store (for_event senv ev w)
          = (if delivered senv (store w) ev
             then markReminderSent (map rsvp_id (getRsvpsForReminder (ev_id ev) (store w))) (store w)
             else store w))"
proof -
  let ?w = "sendEventReminders senv t s"
  let ?C = "getEventsStartingSoon t s"
  from sendEventReminders_eq [OF assms, of senv t]
  have rows: "event_rsvps (store ?w) = map (mark_for senv s ?C) (event_rsvps s)"
    and calls: "dispatched ?w = concat (map (call_for senv s) ?C)"
    and evs: "artist_events (store ?w) = artist_events s"
    by simp_all
  have cf: "call_for senv s = (\<lambda>ev. if \<not> fetch_fails senv (ev_id ev) \<and> getRsvpsForReminder (ev_id ev) s \<noteq> []
                               then [(map userId (getRsvpsForReminder (ev_id ev) s), ev)] else [])"
    by (simp add: call_for_def reached_def fun_eq_iff)
  have 1: "dispatched ?w
           = concat (map (\<lambda>ev. if \<not> fetch_fails senv (ev_id ev) \<and> getRsvpsForReminder (ev_id ev) s \<noteq> []
                               then [(map userId (getRsvpsForReminder (ev_id ev) s), ev)] else [])
                       ?C)"
    using calls unfolding cf .
  have 2: "length (filter (\<lambda>c. ev_id (snd c) = k) (dispatched ?w)) \<le> 1" for k
    unfolding calls using candidates_distinct [OF assms] by (rule calls_at_most_once)
  have 3: "snd c \<in> set ?C \<and> fst c \<noteq> []
          \<and> fst c = map userId (filter (\<lambda>r. eventId r = ev_id (snd c) \<and> reminderEnabled r
                                              \<and> \<not> reminderSent r) (event_rsvps s))"
    if "c \<in> set (dispatched ?w)" for c
  proof -
    from that obtain ev where "ev \<in> set ?C" "c \<in> set (call_for senv s ev)"
      unfolding calls by auto
    then show ?thesis
      by (auto simp: call_for_def reached_def getRsvpsForReminder_def split: if_splits)
  qed
  have 4: "event_rsvps (store ?w)
         = map (\<lambda>r. if reminderEnabled r \<and> \<not> reminderSent r
                        \<and> (\<exists>ev \<in> set ?C. ev_id ev = eventId r \<and> delivered senv s ev)
                     then r\<lparr>reminderSent := True\<rparr> else r)
             (event_rsvps s)"
    unfolding rows by (rule map_cong) (simp_all add: mark_for_unfold)
  from 1 2 3 4 evs for_event_store show ?thesis by blast
qed

theorem sweep_dispatches_pending_witness:
  "constraints sample_db
   \<and> getEventsStartingSoon 0 sample_db = [sample_event]
   \<and> dispatched (sendEventReminders all_ok 0 sample_db) = [([''u1'', ''u2''], sample_event)]
   \<and> event_rsvps (store (sendEventReminders all_ok 0 sample_db))
       = [(sample_rsvp ''r1'' ''u1'' True)\<lparr>reminderSent := True\<rparr>,
          (sample_rsvp ''r2'' ''u2'' True)\<lparr>reminderSent := True\<rparr>,
          sample_rsvp ''r3'' ''u3'' False]
   \<and> totalSent (sendEventReminders all_ok 0 sample_db) = 2"
proof -
  have c: "constraints sample_db"
    by (simp add: sample_defs constraints_def)
  have r: "sendEventReminders all_ok 0 sample_db
      = \<lparr>store = \<lparr>artist_events = [sample_event],
                   event_rsvps = [(sample_rsvp ''r1'' ''u1'' True)\<lparr>reminderSent := True\<rparr>,
                                  (sample_rsvp ''r2'' ''u2'' True)\<lparr>reminderSent := True\<rparr>,
                                  sample_rsvp ''r3'' ''u3'' False]\<rparr>,
         dispatched = [([''u1'', ''u2''], sample_event)], failed = [], totalSent = 2\<rparr>"
    by (simp add: sweep_defs sample_defs all_ok_def)
  have g: "getEventsStartingSoon 0 sample_db = [sample_event]"
    by (simp add: getEventsStartingSoon_def sample_defs Let_def)
  from c r g sweep_dispatches_pending [OF c, of all_ok 0] show ?thesis
    by simp
qed

section \<open>A failing event does not stop the sweep\<close>

text \<open>
  Claim C7. Let an event be among the candidates of a sweep, with any candidates before
  and after it, and let its own fetch, dispatch and update succeed. Whatever fails for the
  other candidates, in the fetch, the dispatch or the update, the sweep dispatches the
  reminders of this event to the users of its pending RSVP rows, and in the store the
  sweep leaves, all these rows are marked as sent. (A thrown value is an \<^verbatim>\<open>Error\<close>,
  as the cast in the \<^verbatim>\<open>catch\<close> block takes it to be.)
\<close>

theorem sweep_isolates_failures:
  assumes "constraints s"
    and "getEventsStartingSoon t s = before @ ev # after"
    and "\<not> fetch_fails senv (ev_id ev)"
    and "\<not> dispatch_fails senv (map userId (getRsvpsForReminder (ev_id ev) s)) ev"
    and "\<not> mark_fails senv (map rsvp_id (getRsvpsForReminder (ev_id ev) s))"
  shows "(getRsvpsForReminder (ev_id ev) s \<noteq> [] \<longrightarrow>
            (map userId (getRsvpsForReminder (ev_id ev) s), ev)
              \<in> set (dispatched (sendEventReminders senv t s)))
    \<and> (\<forall>r \<in> set (getRsvpsForReminder (ev_id ev) s).
          r\<lparr>reminderSent := True\<rparr> \<in> set (event_rsvps (store (sendEventReminders senv t s))))
    \<and> (\<forall>r \<in> set (event_rsvps (store (sendEventReminders senv t s))).
          eventId r = ev_id ev \<and> reminderEnabled r \<longrightarrow> reminderSent r)"
proof -
  let ?w = "sendEventReminders senv t s"
  let ?C = "getEventsStartingSoon t s"
  let ?rs = "getRsvpsForReminder (ev_id ev) s"
  from sendEventReminders_eq [OF assms(1), of senv t]
  have rows: "event_rsvps (store ?w) = map (mark_for senv s ?C) (event_rsvps s)"
    and calls: "dispatched ?w = concat (map (call_for senv s) ?C)"
    by simp_all
  from assms(2) have cand: "ev \<in> set ?C" by simp
  have deliv: "delivered senv s ev" if "?rs \<noteq> []"
    using that assms(3-5) by (simp add: delivered_def reached_def)
  have 1: "(map userId ?rs, ev) \<in> set (dispatched ?w)" if "?rs \<noteq> []"
  proof -
    from that assms(3) have "call_for senv s ev = [(map userId ?rs, ev)]"
      by (simp add: call_for_def reached_def)
    with cand show ?thesis unfolding calls by force
  qed
  have marked: "mark_for senv s ?C r = r\<lparr>reminderSent := True\<rparr>"
    if "r \<in> set (event_rsvps s)" "eventId r = ev_id ev" "pending r" for r
  proof -
    from that have "r \<in> set ?rs" by (simp add: fetched_iff)
    then have "?rs \<noteq> []" by auto
    then have "delivered senv s ev" by (rule deliv)
    with cand that show ?thesis
      by (auto simp: mark_for_def list_ex_iff)
  qed
  have 2: "r\<lparr>reminderSent := True\<rparr> \<in> set (event_rsvps (store ?w))" if "r \<in> set ?rs" for r
  proof -
    from that have r: "r \<in> set (event_rsvps s)" "eventId r = ev_id ev" "pending r"
      by (simp_all add: fetched_iff)
    from marked [OF this] r(1) show ?thesis
      unfolding rows by force
  qed
  have 3: "reminderSent r'"
    if "r' \<in> set (event_rsvps (store ?w))" "eventId r' = ev_id ev \<and> reminderEnabled r'" for r'
  proof -
    from that(1) obtain r where r: "r \<in> set (event_rsvps s)" "r' = mark_for senv s ?C r"
      unfolding rows by auto
    from r(2) that(2) have e: "eventId r = ev_id ev" "reminderEnabled r"
      by (simp_all add: mark_for_def split: if_splits)
    show ?thesis
    proof (cases "pending r")
      case True
      from marked [OF r(1) e(1) True] r(2) show ?thesis by simp
    next
      case False
      with e(2) have "reminderSent r" by (simp add: pending_def)
      with False r(2) show ?thesis by (simp add: mark_for_def)
    qed
  qed
  from 1 2 3 show ?thesis by blast
qed

theorem sweep_isolates_failures_witness:
  "constraints two_events_db
   \<and> getEventsStartingSoon 0 two_events_db = [first_event] @ sample_event # []
   \<and> fetch_fails first_fails (ev_id first_event)
   \<and> \<not> fetch_fails first_fails (ev_id sample_event)
   \<and> sendEventReminders first_fails 0 two_events_db
      = \<lparr>store = \<lparr>artist_events = [first_event, sample_event],
                   event_rsvps = [first_rsvp,
                                  (sample_rsvp ''r1'' ''u1'' True)\<lparr>reminderSent := True\<rparr>,
                                  (sample_rsvp ''r2'' ''u2'' True)\<lparr>reminderSent := True\<rparr>,
                                  sample_rsvp ''r3'' ''u3'' False]\<rparr>,
         dispatched = [([''u1'', ''u2''], sample_event)], failed = [''e0''], totalSent = 2\<rparr>
   \<and> ([''u1'', ''u2''], sample_event) \<in> set (dispatched (sendEventReminders first_fails 0 two_events_db))"
proof -
  have c: "constraints two_events_db"
    by (simp add: two_events_db_def first_event_def first_rsvp_def sample_defs constraints_def)
  have g: "getEventsStartingSoon 0 two_events_db = [first_event] @ sample_event # []"
    by (simp add: getEventsStartingSoon_def two_events_db_def first_event_def sample_defs Let_def)
  have f: "fetch_fails first_fails (ev_id first_event)" "\<not> fetch_fails first_fails (ev_id sample_event)"
    "\<not> dispatch_fails first_fails (map userId (getRsvpsForReminder (ev_id sample_event) two_events_db)) sample_event"
    "\<not> mark_fails first_fails (map rsvp_id (getRsvpsForReminder (ev_id sample_event) two_events_db))"
    by (simp_all add: first_fails_def first_event_def sample_defs)
  have u: "map userId (getRsvpsForReminder (ev_id sample_event) two_events_db) = [''u1'', ''u2'']"
    by (simp add: getRsvpsForReminder_def two_events_db_def first_rsvp_def sample_defs)
  have r: "sendEventReminders first_fails 0 two_events_db
      = \<lparr>store = \<lparr>artist_events = [first_event, sample_event],
                   event_rsvps = [first_rsvp,
                                  (sample_rsvp ''r1'' ''u1'' True)\<lparr>reminderSent := True\<rparr>,
                                  (sample_rsvp ''r2'' ''u2'' True)\<lparr>reminderSent := True\<rparr>,
                                  sample_rsvp ''r3'' ''u3'' False]\<rparr>,
         dispatched = [([''u1'', ''u2''], sample_event)], failed = [''e0''], totalSent = 2\<rparr>"
    by (simp add: sweep_defs two_events_db_def first_event_def first_rsvp_def first_fails_def
        sample_defs)
  from u have "getRsvpsForReminder (ev_id sample_event) two_events_db \<noteq> []"
    by auto
  with sweep_isolates_failures [OF c g f(2,3,4)] u
  have "([''u1'', ''u2''], sample_event) \<in> set (dispatched (sendEventReminders first_fails 0 two_events_db))"
    by simp
  with c g f(1,2) r show ?thesis by simp
qed

section \<open>Further properties\<close>

lemma find_map_same:
  "(\<And>x. P (f x) = P x) \<Longrightarrow> find P (map f xs) = map_option f (find P xs)"
  by (induction xs) auto

lemma getEvent_after_rsvp:
  assumes "getEvent eid s = Inr event"
  shows "getEvent eid
           (s\<lparr>event_rsvps := rows,
              artist_events :=
                map (\<lambda>e. if ev_id e = eid then e\<lparr>rsvpCount := rsvpCount e + 1\<rparr> else e)
                  (artist_events s)\<rparr>)
         = Inr (event\<lparr>rsvpCount := rsvpCount event + 1\<rparr>)"
proof -
  let ?f = "\<lambda>e. if ev_id e = eid then e\<lparr>rsvpCount := rsvpCount e + 1\<rparr> else e"
  from assms have f: "find (\<lambda>e. ev_id e = eid) (artist_events s) = Some event" and i: "ev_id event = eid"
    by (auto simp: getEvent_def split: option.splits dest: find_SomeD)
  have "find (\<lambda>e. ev_id e = eid) (map ?f (artist_events s))
          = map_option ?f (find (\<lambda>e. ev_id e = eid) (artist_events s))"
    by (rule find_map_same) simp
  with f i show ?thesis by (simp add: getEvent_def)
qed

text \<open>
  Property X1. After a call of \<^verbatim>\<open>rsvp\<close> has succeeded, every further call for the same
  event and user, with any body and at any clock, is rejected and changes nothing: with
  \<^verbatim>\<open>ConflictException\<close> (ALREADY_EXISTS) while the event has not started, with
  \<^verbatim>\<open>BadRequestException\<close> from its start on.
\<close>

theorem second_rsvp_rejected:
  assumes "rsvp env eid uid dto s = (Inr row, s')" and "getEvent eid s = Inr event"
  shows "rsvp env' eid uid dto' s'
           = (if startTime event \<le> now env'
              then (Inl (BadRequestException ''Cannot RSVP to a past event''), s')
              else (Inl (ConflictException ''Already RSVPed to this event''), s'))"
proof -
  from assms(1) have cb: "rsvp_cb env eid uid dto s = Inr (row, s')"
    by (rule rsvp_success)
  then have s': "s' = s\<lparr>event_rsvps := event_rsvps s @ [new_row env eid uid dto],
                  artist_events :=
                    map (\<lambda>e. if ev_id e = eid then e\<lparr>rsvpCount := rsvpCount e + 1\<rparr> else e)
                      (artist_events s)\<rparr>"
    by (auto simp: rsvp_cb_eq split: if_splits)
  have ev: "getEvent eid s' = Inr (event\<lparr>rsvpCount := rsvpCount event + 1\<rparr>)"
    unfolding s' using assms(2) by (rule getEvent_after_rsvp)
  have row: "\<exists>r \<in> set (event_rsvps s'). eventId r = eid \<and> userId r = uid"
    unfolding s' by (simp add: new_row_def)
  show ?thesis
  proof (cases "startTime event \<le> now env'")
    case True
    with ev show ?thesis by (simp add: rsvp_past)
  next
    case False
    with ev row show ?thesis by (simp add: rsvp_existing)
  qed
qed

theorem second_rsvp_rejected_witness:
  "getEvent ''e1'' sample_db = Inr sample_event
   \<and> rsvp (sample_env 0) ''e1'' ''u4'' no_dto sample_db
       = (Inr (new_row (sample_env 0) ''e1'' ''u4'' no_dto), joined_db)
   \<and> rsvp (sample_env 1) ''e1'' ''u4'' no_dto joined_db
       = (Inl (ConflictException ''Already RSVPed to this event''), joined_db)
   \<and> rsvp (sample_env 3480000) ''e1'' ''u4'' no_dto joined_db
       = (Inl (BadRequestException ''Cannot RSVP to a past event''), joined_db)"
proof -
  have g: "getEvent ''e1'' sample_db = Inr sample_event"
    by (simp add: getEvent_def sample_defs)
  have r: "rsvp (sample_env 0) ''e1'' ''u4'' no_dto sample_db
      = (Inr (new_row (sample_env 0) ''e1'' ''u4'' no_dto), joined_db)"
    by (simp add: joined_db_def sample_defs no_dto_def new_row_def rsvp_def rsvp_cb_def
        transaction_def getEvent_def insert_rsvp_def increment_rsvpCount_def Let_def)
  from second_rsvp_rejected [OF r g, of "sample_env 1" no_dto]
    second_rsvp_rejected [OF r g, of "sample_env 3480000" no_dto] g r
  show ?thesis
    by (simp add: sample_event_def sample_env_def)
qed

text \<open>
  Property X2. For a positive \<^verbatim>\<open>limit\<close>, \<^verbatim>\<open>totalPages\<close> of a \<^verbatim>\<open>PaginatedResult\<close> is
  the ceiling of \<^verbatim>\<open>total / limit\<close>: the integer \<open>k\<close> with
  \<open>(k - 1) * limit < total \<le> k * limit\<close>. For 25 and 10 it is 3, for 0 it is 0, for 20 and
  20 it is 1.
\<close>

theorem totalPages_ceiling:
  assumes "0 < l"
  shows "\<exists>k. totalPages (new_PaginatedResult d t p l) = Some k \<and> (k - 1) * l < t \<and> t \<le> k * l"
proof -
  define q where "q = (- t) div l"
  define r where "r = (- t) mod l"
  have k: "totalPages (new_PaginatedResult d t p l) = Some (- q)"
    using assms by (simp add: new_PaginatedResult_def q_def)
  have "l * q + r = - t"
    unfolding q_def r_def by (rule mult_div_mod_eq)
  moreover have "0 \<le> r" and "r < l"
    using assms by (simp_all add: r_def)
  ultimately have "(- q - 1) * l < t" and "t \<le> (- q) * l"
    by (simp_all add: algebra_simps)
  with k show ?thesis by blast
qed

theorem totalPages_ceiling_witness:
  "totalPages (new_PaginatedResult [''a'', ''b'', ''c''] 25 2 10) = Some 3
   \<and> totalPages (new_PaginatedResult ([] :: string list) 0 1 20) = Some 0
   \<and> totalPages (new_PaginatedResult ([] :: string list) 20 1 20) = Some 1
   \<and> (0::int) < 10"
  using totalPages_ceiling [of 10 "[''a'', ''b'', ''c'']" 25 2]
  by (simp add: new_PaginatedResult_def)


lemma mark_for_keys:
  "rsvp_id (mark_for senv s evs r) = rsvp_id r"
  "eventId (mark_for senv s evs r) = eventId r"
  "userId (mark_for senv s evs r) = userId r"
  by (simp_all add: mark_for_def)

lemma constraints_sweep:
  assumes "constraints s"
  shows "constraints (store (sendEventReminders senv t s))"
proof -
  let ?w = "sendEventReminders senv t s"
  let ?m = "mark_for senv s (getEventsStartingSoon t s)"
  from sendEventReminders_eq [OF assms, of senv t]
  have rows: "event_rsvps (store ?w) = map ?m (event_rsvps s)"
    and evs: "artist_events (store ?w) = artist_events s"
    by simp_all
  have 1: "map rsvp_id (map ?m (event_rsvps s)) = map rsvp_id (event_rsvps s)"
    by (simp add: o_def mark_for_keys)
  have 2: "map (\<lambda>r. (eventId r, userId r)) (map ?m (event_rsvps s))
             = map (\<lambda>r. (eventId r, userId r)) (event_rsvps s)"
    by (simp add: o_def mark_for_keys)
  have 3: "list_all (\<lambda>r. list_ex (\<lambda>e. ev_id e = eventId r) (artist_events s)) (map ?m (event_rsvps s))
             = list_all (\<lambda>r. list_ex (\<lambda>e. ev_id e = eventId r) (artist_events s)) (event_rsvps s)"
    by (simp add: list_all_iff mark_for_keys)
  from assms show ?thesis
    unfolding constraints_def rows evs 1 2 3 .
qed

text \<open>
  Property X3. On a store that meets the constraints of the schema, once a sweep has
  delivered the reminders of a candidate event, no RSVP row of the event is pending in the
  store the sweep leaves, and no later sweep on that store, at any clock and with any
  collaborators, calls the dispatch for the event again.
\<close>

theorem delivered_once:
  assumes "constraints s" and "ev \<in> set (getEventsStartingSoon t s)" and "delivered senv s ev"
  shows "getRsvpsForReminder (ev_id ev) (store (sendEventReminders senv t s)) = []
    \<and> (\<forall>c \<in> set (dispatched (sendEventReminders senv' t' (store (sendEventReminders senv t s)))).
          ev_id (snd c) \<noteq> ev_id ev)"
proof -
  let ?w = "sendEventReminders senv t s"
  let ?C = "getEventsStartingSoon t s"
  from sendEventReminders_eq [OF assms(1), of senv t]
  have rows: "event_rsvps (store ?w) = map (mark_for senv s ?C) (event_rsvps s)"
    by simp
  have "\<not> (eventId r' = ev_id ev \<and> pending r')" if "r' \<in> set (event_rsvps (store ?w))" for r'
  proof -
    from that obtain r where r: "r' = mark_for senv s ?C r"
      unfolding rows by auto
    show ?thesis
    proof (cases "pending r \<and> eventId r = ev_id ev")
      case True
      with assms(2,3) have "r' = r\<lparr>reminderSent := True\<rparr>"
        unfolding r by (auto simp: mark_for_def list_ex_iff)
      then show ?thesis by (simp add: pending_def)
    next
      case False
      then show ?thesis
        unfolding r by (auto simp: mark_for_def pending_def)
    qed
  qed
  then have none: "getRsvpsForReminder (ev_id ev) (store ?w) = []"
    by (auto simp: getRsvpsForReminder_def pending_def filter_empty_conv)
  have later: "ev_id (snd c) \<noteq> ev_id ev"
    if "c \<in> set (dispatched (sendEventReminders senv' t' (store ?w)))" for c
  proof -
    from assms(1) have "constraints (store ?w)" by (rule constraints_sweep)
    from sendEventReminders_eq [OF this, of senv' t'] that
    obtain e where "c \<in> set (call_for senv' (store ?w) e)"
      by auto
    then have "snd c = e" and "getRsvpsForReminder (ev_id e) (store ?w) \<noteq> []"
      by (auto simp: call_for_def reached_def split: if_splits)
    with none show ?thesis by auto
  qed
  from none later show ?thesis by blast
qed

theorem delivered_once_witness:
  "constraints sample_db \<and> sample_event \<in> set (getEventsStartingSoon 0 sample_db)
   \<and> delivered all_ok sample_db sample_event
   \<and> getRsvpsForReminder ''e1'' (store (sendEventReminders all_ok 0 sample_db)) = []
   \<and> dispatched (sendEventReminders all_ok 60000 (store (sendEventReminders all_ok 0 sample_db))) = []"
proof -
  have c: "constraints sample_db"
    by (simp add: sample_defs constraints_def)
  have g: "sample_event \<in> set (getEventsStartingSoon 0 sample_db)"
    by (simp add: getEventsStartingSoon_def sample_defs Let_def)
  have d: "delivered all_ok sample_db sample_event"
    by (simp add: delivered_def reached_def getRsvpsForReminder_def all_ok_def sample_defs)
  have r: "dispatched (sendEventReminders all_ok 60000 (store (sendEventReminders all_ok 0 sample_db))) = []"
    by (simp add: sweep_defs sample_defs all_ok_def)
  from delivered_once [OF c g d, of all_ok 60000] c g d r show ?thesis
    by (simp add: sample_event_def)
qed

end
